theory Spec2Isabelle
  imports Main
begin

section \<open>Python values and strings\<close>

text \<open>
  A Python \<open>str\<close> is a sequence of code points. The model uses \<^typ>\<open>string\<close>, whose
  characters are the code points below 256 (\<open>CHR 0xAB\<close> is the left guillemet,
  \<open>CHR 0xBB\<close> the right one); strings holding a code point above 255 are outside the model.
  The one exception is the date string, which is a list of code points of any size (see the
  section on dates).

  The configuration file is read by \<open>json.load\<close>, so a configuration value is one of the
  values JSON decoding produces. \<open>PFloat\<close> carries the number as it is written in the file:
  the validation only ever tests its type.
\<close>

datatype pyval =
    PNone
  | PBool bool
  | PInt int
  | PFloat string
  | PStr string
  | PList "pyval list"
  | PDict "(string \<times> pyval) list"

text \<open>\<open>isinstance(v, int)\<close>: \<open>bool\<close> is a subclass of \<open>int\<close> in Python.\<close>

fun isinstance_int :: "pyval \<Rightarrow> bool" where
  "isinstance_int (PInt n) = True"
| "isinstance_int (PBool b) = True"
| "isinstance_int v = False"

fun isinstance_bool :: "pyval \<Rightarrow> bool" where
  "isinstance_bool (PBool b) = True"
| "isinstance_bool v = False"

fun isinstance_str :: "pyval \<Rightarrow> bool" where
  "isinstance_str (PStr s) = True"
| "isinstance_str v = False"

fun isinstance_list :: "pyval \<Rightarrow> bool" where
  "isinstance_list (PList vs) = True"
| "isinstance_list v = False"

fun isinstance_dict :: "pyval \<Rightarrow> bool" where
  "isinstance_dict (PDict kvs) = True"
| "isinstance_dict v = False"

text \<open>The integer a value of type \<open>int\<close> (or \<open>bool\<close>) compares as: \<open>True\<close> is 1, \<open>False\<close> is 0.
  It is only read where \<open>isinstance_int\<close> holds.\<close>

fun int_value :: "pyval \<Rightarrow> int" where
  "int_value (PInt n) = n"
| "int_value (PBool b) = (if b then 1 else 0)"
| "int_value v = 0"

text \<open>\<open>s.startswith(p)\<close>, and \<open>s.startswith((p, q))\<close> with a tuple of prefixes.\<close>

definition startswith :: "string \<Rightarrow> string \<Rightarrow> bool" where
  "startswith s p \<longleftrightarrow> take (length p) s = p"

definition startswith_any :: "string \<Rightarrow> string list \<Rightarrow> bool" where
  "startswith_any s ps \<longleftrightarrow> list_ex (startswith s) ps"

section \<open>Configuration\<close>

datatype config_error =
    IncorrectSeedURLError
  | NumberOfArticlesOutOfRangeError
  | IncorrectNumberOfArticlesError
  | IncorrectHeadersError
  | IncorrectEncodingError
  | IncorrectTimeoutError
  | IncorrectVerifyError

text \<open>The fields \<open>Config.__init__\<close> copies from the decoded file, as they are read: nothing
  is converted before \<open>_validate_config_content\<close> runs.\<close>

record config =
  seed_urls :: pyval
  num_articles :: pyval
  headers :: pyval
  encoding :: pyval
  timeout :: pyval
  should_verify_certificate :: pyval
  headless_mode :: pyval

definition seed_url_ok :: "pyval \<Rightarrow> bool" where
  "seed_url_ok url \<longleftrightarrow>
     (case url of PStr s \<Rightarrow> startswith_any s [''http://'', ''https://''] | _ \<Rightarrow> False)"

text \<open>\<open>Config._validate_config_content\<close>: the checks in the order of the source, each
  \<open>raise\<close> a left value.\<close>

definition validate_config_content :: "config \<Rightarrow> config_error + unit" where
  "validate_config_content c =
     (case seed_urls c of
        PList us \<Rightarrow>
          if list_ex (\<lambda>url. \<not> seed_url_ok url) us then Inl IncorrectSeedURLError
          else if \<not> isinstance_int (num_articles c) \<or> int_value (num_articles c) \<le> 0
            then Inl IncorrectNumberOfArticlesError
          else if int_value (num_articles c) > 150 then Inl NumberOfArticlesOutOfRangeError
          else if \<not> isinstance_dict (headers c) then Inl IncorrectHeadersError
          else if \<not> isinstance_str (encoding c) then Inl IncorrectEncodingError
          else if \<not> isinstance_int (timeout c)
                  \<or> \<not> (0 < int_value (timeout c) \<and> int_value (timeout c) < 60)
            then Inl IncorrectTimeoutError
          else if \<not> isinstance_bool (should_verify_certificate c)
                  \<or> \<not> isinstance_bool (headless_mode c)
            then Inl IncorrectVerifyError
          else Inr ()
      | _ \<Rightarrow> Inl IncorrectSeedURLError)"

text \<open>The getters return the stored fields. A \<open>Config\<close> object exists only when validation
  has passed, and then \<open>seed_urls\<close> is a list of strings and \<open>num_articles\<close> an \<open>int\<close>
  (or a \<open>bool\<close>): the getters below read the fields at those types.\<close>

definition get_seed_urls :: "config \<Rightarrow> string list" where
  "get_seed_urls c =
     (case seed_urls c of
        PList us \<Rightarrow> List.map_filter (\<lambda>u. case u of PStr s \<Rightarrow> Some s | _ \<Rightarrow> None) us
      | _ \<Rightarrow> [])"

definition get_num_articles :: "config \<Rightarrow> int" where
  "get_num_articles c = int_value (num_articles c)"

text \<open>The other fields pass validation: what the article-count checks are reached with
  and followed by.\<close>

definition seeds_valid :: "config \<Rightarrow> bool" where
  "seeds_valid c \<longleftrightarrow>
     (case seed_urls c of PList us \<Rightarrow> list_all seed_url_ok us | _ \<Rightarrow> False)"

definition rest_valid :: "config \<Rightarrow> bool" where
  "rest_valid c \<longleftrightarrow>
     isinstance_dict (headers c) \<and> isinstance_str (encoding c) \<and>
     isinstance_int (timeout c) \<and> 0 < int_value (timeout c) \<and> int_value (timeout c) < 60 \<and>
     isinstance_bool (should_verify_certificate c) \<and> isinstance_bool (headless_mode c)"

definition example_config :: "pyval \<Rightarrow> config" where
  "example_config n =
     \<lparr> seed_urls = PList [PStr ''https://example.com/page''],
       num_articles = n,
       headers = PDict [],
       encoding = PStr ''utf-8'',
       timeout = PInt 5,
       should_verify_certificate = PBool True,
       headless_mode = PBool False \<rparr>"

section \<open>Exceptions and string operations\<close>

text \<open>The exceptions that leave the functions modelled below: a transport failure of
  \<open>requests.get\<close> (\<open>requests.exceptions.RequestException\<close> and its subclasses), and Python's
  built-in \<open>IndexError\<close>, \<open>AttributeError\<close> and \<open>ValueError\<close>.\<close>

datatype py_error = RequestException | IndexError | AttributeError | ValueError

text \<open>\<open>s.split(sep)\<close> with a one-character separator: one more part than there are
  separators, so never an empty list.\<close>

fun py_split :: "char \<Rightarrow> string \<Rightarrow> string list" where
  "py_split sep [] = [[]]"
| "py_split sep (c # cs) =
     (if c = sep then [] # py_split sep cs
      else (case py_split sep cs of p # ps \<Rightarrow> (c # p) # ps | [] \<Rightarrow> [[c]]))"

text \<open>\<open>sep.join(xs)\<close>.\<close>

fun py_join :: "string \<Rightarrow> string list \<Rightarrow> string" where
  "py_join sep [] = []"
| "py_join sep [x] = x"
| "py_join sep (x # y # ys) = x @ sep @ py_join sep (y # ys)"




section \<open>Dates\<close>

text \<open>
  \<open>HTMLParser.unify_date_format\<close> is one call of the standard library:
  \<open>datetime.datetime.strptime(date_str, "%d.%m.%Y")\<close>. The library is not part of the
  repository; it is modelled here as CPython's \<open>_strptime\<close> module implements and documents
  it. The format is compiled to the regular expression
  \<^verbatim>\<open>(?P<d>3[0-1]|[1-2]\d|0[1-9]|[1-9]| [1-9])\.(?P<m>1[0-2]|0[1-9]|[1-9])\.(?P<Y>\d\d\d\d)\<close>
  and matched at the start of the input by a backtracking matcher. No match is a
  \<open>ValueError\<close>; a match that does not end at the end of the input is a \<open>ValueError\<close>
  (unconverted data remains); the three groups are converted by \<open>int\<close>, and a date that
  does not exist is a \<open>ValueError\<close> of the date constructor. The result is a
  \<open>datetime\<close> at midnight, modelled by its year, month and day.

  \<open>strptime\<close> takes any \<open>str\<close>, and both \<open>\d\<close> and \<open>int\<close> accept every Unicode decimal
  digit, not only the ASCII ones. The date string is therefore modelled as a list of code
  points of any size. The table of the Unicode decimal digits (the characters of category
  \<open>Nd\<close> with their values, which depends on the Unicode version of the interpreter) is a
  parameter \<open>dec\<close> of the model: \<open>dec c\<close> is the value of the code point \<open>c\<close> when it is a
  decimal digit. The theorems ask of it only what holds in every version: the ASCII digits
  are decimal digits with their values, a value is below ten, and neither the dot nor the
  space is a digit.
\<close>

datatype datetime = Datetime (year: nat) (month: nat) (day: nat)

type_synonym ustring = "nat list"

text \<open>The code point of a character of the model's 8-bit strings, and such a string as a
  list of code points.\<close>

definition cp :: "char \<Rightarrow> nat" where
  "cp c = of_char c"

definition ustr :: "string \<Rightarrow> ustring" where
  "ustr s = map cp s"

definition decimal_table_ok :: "(nat \<Rightarrow> nat option) \<Rightarrow> bool" where
  "decimal_table_ok dec \<longleftrightarrow>
     (\<forall>i < 10. dec (cp (CHR ''0'') + i) = Some i)
     \<and> (\<forall>c v. dec c = Some v \<longrightarrow> v < 10)
     \<and> dec (cp (CHR ''.'')) = None \<and> dec (cp (CHR '' '')) = None"

text \<open>A piece of the regular expression maps the input to its matches, in the order the
  backtracking matcher tries them: the text matched and the input left. \<open>lit a\<close> is the
  character \<open>a\<close>, \<open>range_cls lo hi\<close> the class \<open>[lo-hi]\<close>, \<open>uni_digit dec\<close> the class \<open>\d\<close>.\<close>

type_synonym matcher = "ustring \<Rightarrow> (ustring \<times> ustring) list"

definition cls1 :: "(nat \<Rightarrow> bool) \<Rightarrow> matcher" where
  "cls1 a s = (case s of x # r \<Rightarrow> if a x then [([x], r)] else [] | _ \<Rightarrow> [])"

definition cls2 :: "(nat \<Rightarrow> bool) \<Rightarrow> (nat \<Rightarrow> bool) \<Rightarrow> matcher" where
  "cls2 a b s =
     (case s of
        x # y # r \<Rightarrow> if a x \<and> b y then [([x, y], r)] else []
      | _ \<Rightarrow> [])"

definition lit :: "char \<Rightarrow> nat \<Rightarrow> bool" where
  "lit a c \<longleftrightarrow> c = cp a"

definition range_cls :: "char \<Rightarrow> char \<Rightarrow> nat \<Rightarrow> bool" where
  "range_cls lo hi c \<longleftrightarrow> cp lo \<le> c \<and> c \<le> cp hi"

definition uni_digit :: "(nat \<Rightarrow> nat option) \<Rightarrow> nat \<Rightarrow> bool" where
  "uni_digit dec c \<longleftrightarrow> dec c \<noteq> None"

definition regex_d :: "(nat \<Rightarrow> nat option) \<Rightarrow> matcher" where
  "regex_d dec s =
     cls2 (lit (CHR ''3'')) (range_cls (CHR ''0'') (CHR ''1'')) s
     @ cls2 (range_cls (CHR ''1'') (CHR ''2'')) (uni_digit dec) s
     @ cls2 (lit (CHR ''0'')) (range_cls (CHR ''1'') (CHR ''9'')) s
     @ cls1 (range_cls (CHR ''1'') (CHR ''9'')) s
     @ cls2 (lit (CHR '' '')) (range_cls (CHR ''1'') (CHR ''9'')) s"

definition regex_m :: matcher where
  "regex_m s =
     cls2 (lit (CHR ''1'')) (range_cls (CHR ''0'') (CHR ''2'')) s
     @ cls2 (lit (CHR ''0'')) (range_cls (CHR ''1'') (CHR ''9'')) s
     @ cls1 (range_cls (CHR ''1'') (CHR ''9'')) s"

definition regex_Y :: "(nat \<Rightarrow> nat option) \<Rightarrow> matcher" where
  "regex_Y dec s =
     (case s of
        a # b # c # d # r \<Rightarrow>
          if list_all (uni_digit dec) [a, b, c, d] then [([a, b, c, d], r)] else []
      | _ \<Rightarrow> [])"

definition regex_dot :: "ustring \<Rightarrow> ustring list" where
  "regex_dot s = (case s of x # r \<Rightarrow> if lit (CHR ''.'') x then [r] else [] | [] \<Rightarrow> [])"

definition regex_matches ::
  "(nat \<Rightarrow> nat option) \<Rightarrow> ustring \<Rightarrow> ((ustring \<times> ustring \<times> ustring) \<times> ustring) list" where
  "regex_matches dec s =
     [((d, m, y), r5). (d, r1) \<leftarrow> regex_d dec s, r2 \<leftarrow> regex_dot r1,
        (m, r3) \<leftarrow> regex_m r2, r4 \<leftarrow> regex_dot r3, (y, r5) \<leftarrow> regex_Y dec r4]"

text \<open>\<open>format_regex.match(data_string)\<close>: the first match, if there is one.\<close>

definition format_regex_match ::
  "(nat \<Rightarrow> nat option) \<Rightarrow> ustring \<Rightarrow> ((ustring \<times> ustring \<times> ustring) \<times> ustring) option" where
  "format_regex_match dec s =
     (case regex_matches dec s of [] \<Rightarrow> None | found # _ \<Rightarrow> Some found)"

definition digit_value :: "(nat \<Rightarrow> nat option) \<Rightarrow> nat \<Rightarrow> nat" where
  "digit_value dec c = (case dec c of Some v \<Rightarrow> v | None \<Rightarrow> 0)"

text \<open>\<open>int(s)\<close> on a group of the match: decimal digits, after a space in the one
  alternative of the day that has one.\<close>

definition py_int :: "(nat \<Rightarrow> nat option) \<Rightarrow> ustring \<Rightarrow> nat" where
  "py_int dec s =
     foldl (\<lambda>n c. 10 * n + digit_value dec c) 0 (dropWhile (lit (CHR '' '')) s)"

definition is_leap :: "nat \<Rightarrow> bool" where
  "is_leap y \<longleftrightarrow> y mod 4 = 0 \<and> (y mod 100 \<noteq> 0 \<or> y mod 400 = 0)"

definition days_in_month :: "nat \<Rightarrow> nat \<Rightarrow> nat" where
  "days_in_month y m =
     (if m = 2 then (if is_leap y then 29 else 28)
      else if m \<in> {4, 6, 9, 11} then 30 else 31)"

definition datetime_date :: "nat \<Rightarrow> nat \<Rightarrow> nat \<Rightarrow> py_error + datetime" where
  "datetime_date y m d =
     (if 1 \<le> y \<and> y \<le> 9999 \<and> 1 \<le> m \<and> m \<le> 12 \<and> 1 \<le> d \<and> d \<le> days_in_month y m
      then Inr (Datetime y m d) else Inl ValueError)"

definition strptime_dmy :: "(nat \<Rightarrow> nat option) \<Rightarrow> ustring \<Rightarrow> py_error + datetime" where
  "strptime_dmy dec s =
     (case format_regex_match dec s of
        None \<Rightarrow> Inl ValueError
      | Some ((d, m, y), rest) \<Rightarrow>
          if rest \<noteq> [] then Inl ValueError
          else datetime_date (py_int dec y) (py_int dec m) (py_int dec d))"

definition unify_date_format :: "(nat \<Rightarrow> nat option) \<Rightarrow> ustring \<Rightarrow> py_error + datetime" where
  "unify_date_format dec date_str = strptime_dmy dec date_str"

text \<open>The inputs \<open>strptime\<close> accepts, said without the matcher. The day is an ASCII digit,
  or an ASCII digit followed by an ASCII digit or, after \<open>1\<close> or \<open>2\<close>, by any decimal digit,
  or a space and an ASCII digit, and it reads as a number from 1 to 31. The month is one
  or two ASCII digits and reads as a number from 1 to 12. The year is exactly four
  decimal digits.\<close>

definition ascii_digit :: "nat \<Rightarrow> bool" where
  "ascii_digit c \<longleftrightarrow> range_cls (CHR ''0'') (CHR ''9'') c"

definition day_token :: "(nat \<Rightarrow> nat option) \<Rightarrow> ustring \<Rightarrow> bool" where
  "day_token dec d \<longleftrightarrow>
     (length d = 1 \<and> ascii_digit (d ! 0)
      \<or> length d = 2 \<and> ascii_digit (d ! 0)
          \<and> (ascii_digit (d ! 1)
              \<or> range_cls (CHR ''1'') (CHR ''2'') (d ! 0) \<and> uni_digit dec (d ! 1))
      \<or> length d = 2 \<and> lit (CHR '' '') (d ! 0) \<and> ascii_digit (d ! 1))
     \<and> 1 \<le> py_int dec d \<and> py_int dec d \<le> 31"

definition month_token :: "(nat \<Rightarrow> nat option) \<Rightarrow> ustring \<Rightarrow> bool" where
  "month_token dec m \<longleftrightarrow>
     list_all ascii_digit m \<and> length m \<in> {1, 2} \<and> 1 \<le> py_int dec m \<and> py_int dec m \<le> 12"

definition year_token :: "(nat \<Rightarrow> nat option) \<Rightarrow> ustring \<Rightarrow> bool" where
  "year_token dec y \<longleftrightarrow> list_all (uni_digit dec) y \<and> length y = 4"

section \<open>The parsed document\<close>

text \<open>
  Pages are parsed by BeautifulSoup, a library outside the repository. A \<open>Tag\<close> is
  modelled by what the calls made in the source return on it:
  \<^item> \<open>tag_attrs\<close>: the attributes; a value is a string, or a list of strings for a
    multi-valued attribute. \<open>Tag.get(k)\<close> is the lookup, \<open>None\<close> when the attribute is absent;
  \<^item> \<open>tag_find\<close>: \<open>Tag.find(name, attrs)\<close>, the first matching element below the tag.
    Its declared result is a \<open>Tag\<close>, a \<open>NavigableString\<close> or \<open>None\<close>, and the source
    tests for it with \<open>isinstance(\<dots>, Tag)\<close>;
  \<^item> \<open>tag_find_all\<close>: \<open>Tag.find_all(name, attrs)\<close>, the matching tags in document order;
  \<^item> \<open>tag_get_text_strip\<close>: \<open>Tag.get_text(strip=True)\<close>;
  \<^item> \<open>tag_decode_contents\<close>: \<open>Tag.decode_contents()\<close>, the inner markup.
  An attribute filter is \<open>True\<close> (the attribute is present, as in \<open>href=True\<close>) or a string.
\<close>

datatype attr_value = AStr string | AList "string list"

datatype attr_filter = AttrPresent | AttrEquals string

datatype 'a found = FNone | FString string | FTag 'a

datatype tag = Tag
  (tag_attrs: "string \<Rightarrow> attr_value option")
  (tag_find: "string option \<Rightarrow> (string \<times> attr_filter) list \<Rightarrow> tag found")
  (tag_find_all: "string \<Rightarrow> (string \<times> attr_filter) list \<Rightarrow> tag list")
  (tag_get_text_strip: string)
  (tag_decode_contents: string)

text \<open>\<open>Tag.__bool__\<close> returns \<open>True\<close> for every tag, also for one without contents.\<close>

definition tag_bool :: "tag \<Rightarrow> bool" where
  "tag_bool t = True"

section \<open>Requests\<close>

text \<open>
  \<open>make_request\<close> issues one \<open>requests.get\<close> and returns the response, or the call raises.
  The network is a parameter: \<open>http_get w k url\<close> is what the \<open>k\<close>-th request of the run
  (counted from 0) gives for \<open>url\<close> under the run's configuration, a raised error or a
  response with its \<open>ok\<close> flag and its text decoded in the configured encoding.
  \<open>beautiful_soup w text\<close> is \<open>BeautifulSoup(text, 'lxml')\<close>. The state of a run holds the
  crawler's \<open>urls\<close> and, as the trace of its effect on the network, the URLs requested so far.
\<close>

datatype response = Response (ok: bool) (text_of: string)

record world =
  http_get :: "nat \<Rightarrow> string \<Rightarrow> py_error + response"
  beautiful_soup :: "string \<Rightarrow> tag"

record crawler =
  urls :: "string list"
  requested :: "string list"

definition make_request :: "world \<Rightarrow> string \<Rightarrow> crawler \<Rightarrow> (py_error + response) \<times> crawler" where
  "make_request w url s =
     (http_get w (length (requested s)) url, s\<lparr>requested := requested s @ [url]\<rparr>)"

section \<open>Crawler\<close>

text \<open>\<open>Crawler.__init__\<close>: no URL found, nothing requested.\<close>

definition init_crawler :: crawler where
  "init_crawler = \<lparr>urls = [], requested = []\<rparr>"

definition get_search_urls :: "config \<Rightarrow> string list" where
  "get_search_urls c = get_seed_urls c"

text \<open>\<open>Crawler._extract_url\<close>. \<open>raw_href[0]\<close> raises \<open>IndexError\<close> on an empty list, and so
  does \<open>parts[2]\<close> when the first seed splits into fewer than three parts.\<close>

definition extract_url :: "config \<Rightarrow> tag \<Rightarrow> py_error + string" where
  "extract_url c article_bs =
     (case (case tag_attrs article_bs ''href'' of
              Some (AList l) \<Rightarrow> (case l of [] \<Rightarrow> Inl IndexError | x # _ \<Rightarrow> Inr (Some x))
            | Some (AStr s) \<Rightarrow> Inr (Some s)
            | None \<Rightarrow> Inr None) of
        Inl e \<Rightarrow> Inl e
      | Inr None \<Rightarrow> Inr []
      | Inr (Some href) \<Rightarrow>
          if href = [] then Inr []
          else if startswith_any href [''http://'', ''https://''] then Inr href
          else (case get_seed_urls c of
                  [] \<Rightarrow> Inr []
                | base # _ \<Rightarrow>
                    (let parts = py_split (CHR ''/'') base in
                     if length parts < 3 then Inl IndexError
                     else Inr ((parts ! 0 @ ''//'' @ parts ! 2) @ href))))"

text \<open>The loop over the \<open>h3\<close> headings of one listing page, on the list \<open>self.urls\<close>. The
  result is the exception that ended the loop, if one did, and the list as it then is.
  A \<open>find\<close> result that is a non-empty string passes \<open>if not a_tag\<close> and has no \<open>get\<close>.\<close>

fun headers_loop :: "config \<Rightarrow> tag list \<Rightarrow> string list \<Rightarrow> py_error option \<times> string list" where
  "headers_loop c [] us = (None, us)"
| "headers_loop c (header # rest) us =
     (if int (length us) \<ge> get_num_articles c then (None, us)
      else (case tag_find header (Some ''a'') [(''href'', AttrPresent)] of
              FTag a_tag \<Rightarrow>
                (case extract_url c a_tag of
                   Inl e \<Rightarrow> (Some e, us)
                 | Inr url \<Rightarrow>
                     if url \<noteq> [] \<and> url \<notin> set us then headers_loop c rest (us @ [url])
                     else headers_loop c rest us)
            | FString s \<Rightarrow> if s \<noteq> [] then (Some AttributeError, us) else headers_loop c rest us
            | FNone \<Rightarrow> headers_loop c rest us))"

text \<open>\<open>Crawler.find_articles\<close>: the loop over the seed URLs. A raised error ends the call;
  the state is the one reached when it was raised.\<close>

fun find_articles_loop ::
  "config \<Rightarrow> world \<Rightarrow> string list \<Rightarrow> crawler \<Rightarrow> py_error option \<times> crawler" where
  "find_articles_loop c w [] s = (None, s)"
| "find_articles_loop c w (seed_url # rest) s =
     (case make_request w seed_url s of
        (Inl e, s1) \<Rightarrow> (Some e, s1)
      | (Inr response, s1) \<Rightarrow>
          if \<not> ok response then find_articles_loop c w rest s1
          else (case headers_loop c
                       (tag_find_all (beautiful_soup w (text_of response)) ''h3'' []) (urls s1) of
                  (Some e, us) \<Rightarrow> (Some e, s1\<lparr>urls := us\<rparr>)
                | (None, us) \<Rightarrow> find_articles_loop c w rest (s1\<lparr>urls := us\<rparr>)))"

definition find_articles :: "config \<Rightarrow> world \<Rightarrow> crawler \<Rightarrow> py_error option \<times> crawler" where
  "find_articles c w s = find_articles_loop c w (get_search_urls c) s"

text \<open>What link discovery is specified to produce, said without the loops: the non-empty
  URLs the headings of the fetched pages give, in the order of the seeds and of the headings,
  each kept at its first occurrence only.\<close>

text \<open>The non-empty URLs a list of headings gives, in the order of the headings: a heading
  without an anchor, or whose anchor gives the empty string, gives none.\<close>

definition links :: "config \<Rightarrow> tag list \<Rightarrow> string list" where
  "links c hs =
     concat (map (\<lambda>header.
        case tag_find header (Some ''a'') [(''href'', AttrPresent)] of
          FTag a_tag \<Rightarrow>
            (case extract_url c a_tag of Inr url \<Rightarrow> (if url \<noteq> [] then [url] else []) | Inl e \<Rightarrow> [])
        | _ \<Rightarrow> []) hs)"

definition page_links :: "config \<Rightarrow> tag \<Rightarrow> string list" where
  "page_links c soup = links c (tag_find_all soup ''h3'' [])"

fun discovered :: "config \<Rightarrow> world \<Rightarrow> nat \<Rightarrow> string list \<Rightarrow> string list" where
  "discovered c w k [] = []"
| "discovered c w k (seed_url # rest) =
     (case http_get w k seed_url of
        Inr response \<Rightarrow>
          if ok response then page_links c (beautiful_soup w (text_of response)) else []
      | Inl e \<Rightarrow> [])
     @ discovered c w (Suc k) rest"

definition first_occurrences :: "string list \<Rightarrow> string list" where
  "first_occurrences xs = rev (remdups (rev xs))"

text \<open>The part of the first seed URL that \<open>_extract_url\<close> puts before a relative \<open>href\<close>, said
  without the split: the scheme with its \<open>//\<close>, and what follows up to the next \<open>/\<close>.\<close>

definition scheme_of :: "string \<Rightarrow> string" where
  "scheme_of u =
     (if startswith u ''https://'' then ''https://''
      else if startswith u ''http://'' then ''http://'' else [])"

definition after_scheme :: "string \<Rightarrow> string" where
  "after_scheme u = drop (length (scheme_of u)) u"

definition seed_prefix :: "string \<Rightarrow> string" where
  "seed_prefix u = scheme_of u @ takeWhile (\<lambda>c. c \<noteq> CHR ''/'') (after_scheme u)"

text \<open>The scheme and host of a URL, as a URL is read (RFC 3986): the authority follows the
  \<open>//\<close> and ends before the next \<open>/\<close>, \<open>?\<close> or \<open>#\<close>; the host is the authority without the
  user information that ends at \<open>@\<close> and without the port that follows the host.
  \<open>plain_host u\<close>: what follows the \<open>//\<close> up to the next \<open>/\<close> is a host and nothing else.\<close>

definition authority_of :: "string \<Rightarrow> string" where
  "authority_of u = takeWhile (\<lambda>c. c \<notin> set ''/?#'') (after_scheme u)"

definition host_of :: "string \<Rightarrow> string" where
  "host_of auth =
     (let hp = (if CHR ''@'' \<in> set auth then tl (dropWhile (\<lambda>c. c \<noteq> CHR ''@'') auth) else auth)
      in if hp \<noteq> [] \<and> hd hp = CHR ''[''
           then takeWhile (\<lambda>c. c \<noteq> CHR '']'') hp @ '']''
         else takeWhile (\<lambda>c. c \<noteq> CHR '':'') hp)"

definition scheme_and_host :: "string \<Rightarrow> string" where
  "scheme_and_host u = scheme_of u @ host_of (authority_of u)"

definition plain_host :: "string \<Rightarrow> bool" where
  "plain_host u \<longleftrightarrow>
     list_all (\<lambda>c. c \<notin> set ''?#@:['') (takeWhile (\<lambda>c. c \<noteq> CHR ''/'') (after_scheme u))"

section \<open>HTMLParser\<close>

text \<open>The attributes of the \<open>Article\<close> object the parser fills. The class is defined outside
  the repository's sources; only the attributes assigned here are modelled.\<close>

record article =
  title :: string
  author :: "string list"
  date :: "datetime option"
  topics :: "string list"
  map_field :: "string list"
  text_field :: string

text \<open>\<open>HTMLParser._fill_article_with_text\<close>. None of its calls can raise: it returns the
  article with the text set. \<open>if not body: self.article.text = ""\<close> has no \<open>return\<close>.\<close>

definition fill_article_with_text :: "tag \<Rightarrow> article \<Rightarrow> article" where
  "fill_article_with_text article_soup a =
     (case tag_find article_soup (Some ''div'') [(''itemprop'', AttrEquals ''articleBody'')] of
        FTag body \<Rightarrow>
          (let a1 = (if \<not> tag_bool body then a\<lparr>text_field := []\<rparr> else a) in
           case tag_find body (Some ''div'')
                  [(''class'', AttrEquals ''field ft_html f_content auto_field'')] of
             FTag html_field \<Rightarrow>
               (let a2 = (if \<not> tag_bool html_field then a1\<lparr>text_field := []\<rparr> else a1) in
                case tag_find html_field (Some ''div'') [(''class'', AttrEquals ''value'')] of
                  FTag value_div \<Rightarrow>
                    (let a3 = (if \<not> tag_bool value_div then a2\<lparr>text_field := []\<rparr> else a2);
                         paragraphs =
                           map tag_get_text_strip
                             (filter (\<lambda>p. tag_get_text_strip p \<noteq> [])
                                (tag_find_all value_div ''p'' []))
                     in a3\<lparr>text_field := py_join [CHR 0x0A] paragraphs\<rparr>)
                | _ \<Rightarrow> a2\<lparr>text_field := []\<rparr>)
           | _ \<Rightarrow> a1\<lparr>text_field := []\<rparr>)
      | _ \<Rightarrow> a\<lparr>text_field := []\<rparr>)"










text \<open>\<open>isinstance(r, Tag)\<close> on a result of \<open>find\<close>, and the paragraph texts of a value region
  that are kept: the stripped text of each \<open>p\<close> element, those that are empty dropped.\<close>

definition is_tag :: "tag found \<Rightarrow> bool" where
  "is_tag r \<longleftrightarrow> (case r of FTag t \<Rightarrow> True | _ \<Rightarrow> False)"

definition kept_paragraphs :: "tag \<Rightarrow> string list" where
  "kept_paragraphs value_div =
     filter (\<lambda>t. t \<noteq> []) (map tag_get_text_strip (tag_find_all value_div ''p'' []))"

text \<open>The texts of a list of paragraphs joined by newlines, said without the join of the
  source: every paragraph followed by a newline, the last newline left out.\<close>

definition newline_joined :: "string list \<Rightarrow> string" where
  "newline_joined ps =
     (if ps = [] then [] else butlast (concat (map (\<lambda>p. p @ [CHR 0x0A]) ps)))"

section \<open>Example inputs\<close>

text \<open>Concrete tags, pages, configurations and a network, for the theorems about single
  inputs. In \<open>example_world\<close> the URL \<open>https://example.com/down\<close> cannot be reached and
  every other URL gives the same listing page of three headings.\<close>

definition anchor :: "attr_value option \<Rightarrow> tag" where
  "anchor h = Tag (\<lambda>k. if k = ''href'' then h else None) (\<lambda>n f. FNone) (\<lambda>n f. []) [] []"

definition no_seed_config :: config where
  "no_seed_config = (example_config (PInt 5))\<lparr>seed_urls := PList []\<rparr>"

definition heading :: "tag found \<Rightarrow> tag" where
  "heading a = Tag (\<lambda>k. None) (\<lambda>n f. if n = Some ''a'' then a else FNone) (\<lambda>n f. []) [] []"

definition listing :: "tag list \<Rightarrow> tag" where
  "listing hs = Tag (\<lambda>k. None) (\<lambda>n f. FNone) (\<lambda>n f. if n = ''h3'' then hs else []) [] []"

definition seeds_config :: "string list \<Rightarrow> int \<Rightarrow> config" where
  "seeds_config seeds n = (example_config (PInt n))\<lparr>seed_urls := PList (map PStr seeds)\<rparr>"

definition example_world :: world where
  "example_world =
     \<lparr> http_get = (\<lambda>k url. if url = ''https://example.com/down'' then Inl RequestException
                           else Inr (Response True url)),
       beautiful_soup = (\<lambda>t. listing
          [heading (FTag (anchor (Some (AStr ''/news/1'')))),
           heading (FTag (anchor (Some (AStr ''/news/2'')))),
           heading (FTag (anchor (Some (AStr ''/news/1''))))]) \<rparr>"

definition p_tag :: "string \<Rightarrow> tag" where
  "p_tag t = Tag (\<lambda>k. None) (\<lambda>n f. FNone) (\<lambda>n f. []) t t"

definition container :: "string \<Rightarrow> (string \<times> attr_filter) list \<Rightarrow> tag \<Rightarrow> tag" where
  "container name attrs child =
     Tag (\<lambda>k. None) (\<lambda>n f. if n = Some name \<and> f = attrs then FTag child else FNone)
       (\<lambda>n f. []) [] []"

definition value_region :: "tag list \<Rightarrow> tag" where
  "value_region ps = Tag (\<lambda>k. None) (\<lambda>n f. FNone) (\<lambda>n f. if n = ''p'' then ps else []) [] []"

definition example_article_page :: tag where
  "example_article_page =
     container ''div'' [(''itemprop'', AttrEquals ''articleBody'')]
       (container ''div'' [(''class'', AttrEquals ''field ft_html f_content auto_field'')]
          (container ''div'' [(''class'', AttrEquals ''value'')]
             (value_region [p_tag ''A'', p_tag []])))"

definition example_article_page2 :: tag where
  "example_article_page2 =
     container ''div'' [(''itemprop'', AttrEquals ''articleBody'')]
       (container ''div'' [(''class'', AttrEquals ''field ft_html f_content auto_field'')]
          (container ''div'' [(''class'', AttrEquals ''value'')]
             (value_region [p_tag ''A'', p_tag [], p_tag ''Bc''])))"


definition empty_article :: article where
  "empty_article =
     \<lparr>title = [], author = [], date = None, topics = [], map_field = [], text_field = []\<rparr>"

text \<open>A table of decimal digits for the theorems about single inputs: the ASCII digits, the
  Arabic-Indic digits from \<open>U+0660\<close> and the fullwidth digits from \<open>U+FF10\<close>.\<close>

definition example_decimal :: "nat \<Rightarrow> nat option" where
  "example_decimal c =
     (if 0x30 \<le> c \<and> c \<le> 0x39 then Some (c - 0x30)
      else if 0x660 \<le> c \<and> c \<le> 0x669 then Some (c - 0x660)
      else if 0xFF10 \<le> c \<and> c \<le> 0xFF19 then Some (c - 0xFF10)
      else None)"

section \<open>Configuration: theorems\<close>

lemma list_ex_not_iff: "list_ex (\<lambda>x. \<not> P x) xs \<longleftrightarrow> \<not> list_all P xs"
  by (induction xs) auto

lemma validate_count_incorrect:
  assumes "seeds_valid c"
    and "\<not> isinstance_int (num_articles c) \<or> int_value (num_articles c) \<le> 0"
  shows "validate_config_content c = Inl IncorrectNumberOfArticlesError"
  using assms
  by (auto simp: validate_config_content_def seeds_valid_def list_ex_not_iff
      split: pyval.splits)

lemma validate_count_out_of_range:
  assumes "seeds_valid c"
    and "isinstance_int (num_articles c)" and "150 < int_value (num_articles c)"
  shows "validate_config_content c = Inl NumberOfArticlesOutOfRangeError"
  using assms
  by (auto simp: validate_config_content_def seeds_valid_def list_ex_not_iff
      split: pyval.splits)

lemma validate_count_in_range:
  assumes "seeds_valid c" and "rest_valid c"
    and "isinstance_int (num_articles c)"
    and "0 < int_value (num_articles c)" and "int_value (num_articles c) \<le> 150"
  shows "validate_config_content c = Inr ()"
  using assms
  by (auto simp: validate_config_content_def seeds_valid_def rest_valid_def list_ex_not_iff
      split: pyval.splits)

lemma example_config_valid [simp]:
  "seeds_valid (example_config n)" "rest_valid (example_config n)"
  by (simp_all add: example_config_def seeds_valid_def rest_valid_def seed_url_ok_def
      startswith_any_def startswith_def)

lemma example_config_num [simp]: "num_articles (example_config n) = n"
  by (simp add: example_config_def)

text \<open>What \<open>_validate_config_content\<close> does at an article count of 0.\<close>

lemma validate_zero_kind:
  "validate_config_content (example_config (PInt 0)) = Inl IncorrectNumberOfArticlesError"
  by (simp add: validate_count_incorrect)

text \<open>
  C3 (as stated): one single error kind covers the article counts 0, -1, 151 and \<open>"abc"\<close>.
  The source raises two: \<open>IncorrectNumberOfArticlesError\<close> at -1 and
  \<open>NumberOfArticlesOutOfRangeError\<close> at 151.
\<close>

theorem article_count_two_error_kinds:
  "validate_config_content (example_config (PInt (- 1))) = Inl IncorrectNumberOfArticlesError
   \<and> validate_config_content (example_config (PInt 151)) = Inl NumberOfArticlesOutOfRangeError
   \<and> IncorrectNumberOfArticlesError \<noteq> NumberOfArticlesOutOfRangeError"
  by (simp add: validate_count_incorrect validate_count_out_of_range)

text \<open>
  C3 (amended): in a configuration whose seed URLs pass, validation fails for every article
  count among 0, -1, 151 and \<open>"abc"\<close>, always with one of the two article-count errors:
  \<open>IncorrectNumberOfArticlesError\<close> at -1 and at \<open>"abc"\<close>,
  \<open>NumberOfArticlesOutOfRangeError\<close> at 151. When the other fields pass too, validation
  succeeds at 1 and at 150.
\<close>

theorem article_count_validation:
  assumes "seeds_valid c"
  shows "(num_articles c \<in> {PInt 0, PInt (- 1), PInt 151, PStr ''abc''} \<longrightarrow>
            validate_config_content c \<in>
              {Inl IncorrectNumberOfArticlesError, Inl NumberOfArticlesOutOfRangeError})
       \<and> (num_articles c \<in> {PInt (- 1), PStr ''abc''} \<longrightarrow>
            validate_config_content c = Inl IncorrectNumberOfArticlesError)
       \<and> (num_articles c = PInt 151 \<longrightarrow>
            validate_config_content c = Inl NumberOfArticlesOutOfRangeError)
       \<and> (rest_valid c \<and> num_articles c \<in> {PInt 1, PInt 150} \<longrightarrow>
            validate_config_content c = Inr ())"
  using assms
  by (auto simp: validate_count_incorrect validate_count_out_of_range validate_count_in_range)

theorem article_count_validation_witness:
  "seeds_valid (example_config (PInt 0)) \<and> seeds_valid (example_config (PInt 150))
   \<and> rest_valid (example_config (PInt 150))
   \<and> validate_config_content (example_config (PInt 0)) \<in>
     {Inl IncorrectNumberOfArticlesError, Inl NumberOfArticlesOutOfRangeError}
   \<and> validate_config_content (example_config (PStr ''abc'')) = Inl IncorrectNumberOfArticlesError
   \<and> validate_config_content (example_config (PInt 151)) = Inl NumberOfArticlesOutOfRangeError
   \<and> validate_config_content (example_config (PInt 150)) = Inr ()"
  using article_count_validation [of "example_config (PInt 0)"]
    article_count_validation [of "example_config (PStr ''abc'')"]
    article_count_validation [of "example_config (PInt 151)"]
    article_count_validation [of "example_config (PInt 150)"]
  by simp

text \<open>
  C9: a boolean passes where an integer is required. In a configuration that passes
  validation, replacing the article count by \<open>True\<close>, or the timeout by \<open>True\<close>, passes
  validation again, and the validated configuration then holds the boolean itself.
\<close>

theorem bool_accepted_as_int:
  assumes "validate_config_content c = Inr ()"
  shows "validate_config_content (c\<lparr>num_articles := PBool True\<rparr>) = Inr ()
       \<and> validate_config_content (c\<lparr>timeout := PBool True\<rparr>) = Inr ()
       \<and> num_articles (c\<lparr>num_articles := PBool True\<rparr>) = PBool True
       \<and> get_num_articles (c\<lparr>num_articles := PBool True\<rparr>) = 1"
  using assms
  by (auto simp: validate_config_content_def get_num_articles_def
      split: pyval.splits if_splits)

theorem bool_accepted_as_int_witness:
  "validate_config_content (example_config (PInt 5)) = Inr ()
   \<and> validate_config_content (example_config (PBool True)) = Inr ()
   \<and> validate_config_content ((example_config (PInt 5))\<lparr>timeout := PBool True\<rparr>) = Inr ()"
proof -
  have v: "validate_config_content (example_config (PInt 5)) = Inr ()"
    by (simp add: validate_count_in_range)
  have e: "(example_config (PInt 5))\<lparr>num_articles := PBool True\<rparr> = example_config (PBool True)"
    by (simp add: example_config_def)
  show ?thesis
    using v bool_accepted_as_int [OF v] by (simp add: e)
qed

section \<open>Dates: theorems\<close>

lemma cp_vals:
  "cp (CHR ''0'') = 48" "cp (CHR ''1'') = 49" "cp (CHR ''2'') = 50" "cp (CHR ''3'') = 51"
  "cp (CHR ''9'') = 57" "cp (CHR ''.'') = 46" "cp (CHR '' '') = 32"
  by (simp_all add: cp_def)

lemma set_cls1: "set (cls1 a s) = {([x], r) | x r. s = x # r \<and> a x}"
  by (auto simp: cls1_def split: list.splits)

lemma set_cls2: "set (cls2 a b s) = {([x, y], r) | x y r. s = x # y # r \<and> a x \<and> b y}"
  by (auto simp: cls2_def split: list.splits)

lemma set_regex_dot: "set (regex_dot s) = {r. s = 46 # r}"
  by (auto simp: regex_dot_def lit_def cp_vals split: list.splits)

lemma length4: "length y = 4 \<longleftrightarrow> (\<exists>a b c d. y = [a, b, c, d])"
  by (cases y; cases "tl y"; cases "tl (tl y)"; cases "tl (tl (tl y))"; auto)

lemma length1: "length y = Suc 0 \<longleftrightarrow> (\<exists>a. y = [a])"
  by (cases y) auto

lemma length2: "length y = 2 \<longleftrightarrow> (\<exists>a b. y = [a, b])"
  by (cases y; cases "tl y"; cases "tl (tl y)"; auto)

lemma mem_regex_Y: "(y, r) \<in> set (regex_Y dec s) \<longleftrightarrow> s = y @ r \<and> year_token dec y"
  by (auto simp: regex_Y_def year_token_def length4 split: list.splits)

lemma ascii_digit_iff: "ascii_digit c \<longleftrightarrow> 48 \<le> c \<and> c \<le> 57"
  by (simp add: ascii_digit_def range_cls_def cp_vals)

lemma ascii_digit_value:
  assumes "decimal_table_ok dec" and "ascii_digit c"
  shows "dec c = Some (c - 48)"
proof -
  from assms(2) have lt: "c - 48 < 10" and c: "48 + (c - 48) = c"
    unfolding ascii_digit_iff by linarith+
  from assms(1) have "\<forall>i < 10. dec (48 + i) = Some i"
    by (simp add: decimal_table_ok_def cp_vals)
  with lt have "dec (48 + (c - 48)) = Some (c - 48)"
    by blast
  then show ?thesis
    unfolding c .
qed

lemma ascii_digit_uni: "decimal_table_ok dec \<Longrightarrow> ascii_digit c \<Longrightarrow> uni_digit dec c"
  by (simp add: uni_digit_def ascii_digit_value)

lemma digit_value_ascii:
  "decimal_table_ok dec \<Longrightarrow> ascii_digit c \<Longrightarrow> digit_value dec c = c - 48"
  by (simp add: digit_value_def ascii_digit_value)

lemma digit_le9:
  assumes "decimal_table_ok dec"
  shows "digit_value dec c \<le> 9"
proof (cases "dec c")
  case None
  then show ?thesis by (simp add: digit_value_def)
next
  case (Some v)
  with assms have "v < 10"
    unfolding decimal_table_ok_def by blast
  with Some show ?thesis by (simp add: digit_value_def)
qed

lemma not_digit:
  "decimal_table_ok dec \<Longrightarrow> \<not> uni_digit dec 46" "decimal_table_ok dec \<Longrightarrow> \<not> uni_digit dec 32"
  by (simp_all add: decimal_table_ok_def uni_digit_def cp_vals)

lemma py_int1: "py_int dec [a] = (if a = 32 then 0 else digit_value dec a)"
  by (simp add: py_int_def lit_def cp_vals)

lemma py_int2:
  "py_int dec [a, b] = (if a = 32 then py_int dec [b] else 10 * digit_value dec a + digit_value dec b)"
  by (simp add: py_int_def lit_def cp_vals)

lemma mem_regex_d:
  "(d, r) \<in> set (regex_d dec s) \<longleftrightarrow>
     (\<exists>x y. d = [x, y] \<and> s = x # y # r \<and>
        (x = 51 \<and> 48 \<le> y \<and> y \<le> 49 \<or> 49 \<le> x \<and> x \<le> 50 \<and> uni_digit dec y
         \<or> x = 48 \<and> 49 \<le> y \<and> y \<le> 57 \<or> x = 32 \<and> 49 \<le> y \<and> y \<le> 57))
     \<or> (\<exists>x. d = [x] \<and> s = x # r \<and> 49 \<le> x \<and> x \<le> 57)"
  unfolding regex_d_def set_append set_cls1 set_cls2
  apply (simp add: lit_def range_cls_def cp_vals)
  by blast

lemma mem_regex_m:
  "(m, r) \<in> set (regex_m s) \<longleftrightarrow>
     (\<exists>x y. m = [x, y] \<and> s = x # y # r \<and>
        (x = 49 \<and> 48 \<le> y \<and> y \<le> 50 \<or> x = 48 \<and> 49 \<le> y \<and> y \<le> 57))
     \<or> (\<exists>x. m = [x] \<and> s = x # r \<and> 49 \<le> x \<and> x \<le> 57)"
  unfolding regex_m_def set_append set_cls1 set_cls2
  apply (simp add: lit_def range_cls_def cp_vals)
  by blast

lemma day_token_1:
  assumes "decimal_table_ok dec"
  shows "day_token dec [x] \<longleftrightarrow> 49 \<le> x \<and> x \<le> 57"
proof (cases "ascii_digit x")
  case True
  then show ?thesis
    using digit_value_ascii [OF assms True]
    by (auto simp: day_token_def py_int1 ascii_digit_iff)
next
  case False
  then show ?thesis
    by (auto simp: day_token_def ascii_digit_iff)
qed

lemma day_token_2:
  assumes "decimal_table_ok dec"
  shows "day_token dec [x, y] \<longleftrightarrow>
     (x = 51 \<and> 48 \<le> y \<and> y \<le> 49 \<or> 49 \<le> x \<and> x \<le> 50 \<and> uni_digit dec y
      \<or> x = 48 \<and> 49 \<le> y \<and> y \<le> 57 \<or> x = 32 \<and> 49 \<le> y \<and> y \<le> 57)"
proof (cases "ascii_digit x")
  case x: True
  then have vx: "digit_value dec x = x - 48" and nx: "x \<noteq> 32"
    using digit_value_ascii [OF assms x] by (simp_all add: ascii_digit_iff)
  show ?thesis
  proof (cases "ascii_digit y")
    case y: True
    then have vy: "digit_value dec y = y - 48" and uy: "uni_digit dec y"
      using digit_value_ascii [OF assms y] ascii_digit_uni [OF assms y] by simp_all
    from x y show ?thesis
      by (auto simp: day_token_def py_int2 vx vy uy nx ascii_digit_iff lit_def range_cls_def cp_vals)
  next
    case y: False
    have "digit_value dec y \<le> 9" by (rule digit_le9 [OF assms])
    with x y show ?thesis
      by (auto simp: day_token_def py_int2 vx nx ascii_digit_iff lit_def range_cls_def cp_vals)
  qed
next
  case x: False
  show ?thesis
  proof (cases "x = 32")
    case True
    show ?thesis
    proof (cases "ascii_digit y")
      case y: True
      then have "digit_value dec y = y - 48"
        using digit_value_ascii [OF assms y] by simp
      with True x y show ?thesis
        by (auto simp: day_token_def py_int2 py_int1 ascii_digit_iff lit_def cp_vals)
    next
      case False
      with True x show ?thesis
        by (auto simp: day_token_def ascii_digit_iff lit_def cp_vals)
    qed
  next
    case False
    with x show ?thesis
      by (auto simp: day_token_def ascii_digit_iff lit_def cp_vals)
  qed
qed

lemma day_token_length: "day_token dec d \<Longrightarrow> (\<exists>x. d = [x]) \<or> (\<exists>x y. d = [x, y])"
  by (auto simp: day_token_def length1 length2)

lemma set_regex_d:
  assumes "decimal_table_ok dec"
  shows "(d, r) \<in> set (regex_d dec s) \<longleftrightarrow> s = d @ r \<and> day_token dec d"
proof
  assume "(d, r) \<in> set (regex_d dec s)"
  then show "s = d @ r \<and> day_token dec d"
    unfolding mem_regex_d by (auto simp: day_token_1 [OF assms] day_token_2 [OF assms])
next
  assume a: "s = d @ r \<and> day_token dec d"
  then consider x where "d = [x]" | x y where "d = [x, y]"
    using day_token_length by blast
  then show "(d, r) \<in> set (regex_d dec s)"
  proof cases
    case 1
    with a show ?thesis unfolding mem_regex_d by (simp add: day_token_1 [OF assms])
  next
    case 2
    with a show ?thesis unfolding mem_regex_d by (simp add: day_token_2 [OF assms])
  qed
qed

lemma month_token_1:
  assumes "decimal_table_ok dec"
  shows "month_token dec [x] \<longleftrightarrow> 49 \<le> x \<and> x \<le> 57"
proof (cases "ascii_digit x")
  case True
  then show ?thesis
    using digit_value_ascii [OF assms True]
    by (auto simp: month_token_def py_int1 ascii_digit_iff)
next
  case False
  then show ?thesis
    by (auto simp: month_token_def ascii_digit_iff)
qed

lemma month_token_2:
  assumes "decimal_table_ok dec"
  shows "month_token dec [x, y] \<longleftrightarrow>
     (x = 49 \<and> 48 \<le> y \<and> y \<le> 50 \<or> x = 48 \<and> 49 \<le> y \<and> y \<le> 57)"
proof (cases "ascii_digit x \<and> ascii_digit y")
  case True
  then have "digit_value dec x = x - 48" "digit_value dec y = y - 48" "x \<noteq> 32"
    using digit_value_ascii [OF assms] by (simp_all add: ascii_digit_iff)
  with True show ?thesis
    by (auto simp: month_token_def py_int2 ascii_digit_iff)
next
  case False
  then show ?thesis
    by (auto simp: month_token_def ascii_digit_iff)
qed

lemma month_token_length: "month_token dec d \<Longrightarrow> (\<exists>x. d = [x]) \<or> (\<exists>x y. d = [x, y])"
  using length1 [of d] length2 [of d] by (auto simp: month_token_def)

lemma set_regex_m:
  assumes "decimal_table_ok dec"
  shows "(m, r) \<in> set (regex_m s) \<longleftrightarrow> s = m @ r \<and> month_token dec m"
proof
  assume "(m, r) \<in> set (regex_m s)"
  then show "s = m @ r \<and> month_token dec m"
    unfolding mem_regex_m by (auto simp: month_token_1 [OF assms] month_token_2 [OF assms])
next
  assume a: "s = m @ r \<and> month_token dec m"
  then consider x where "m = [x]" | x y where "m = [x, y]"
    using month_token_length by blast
  then show "(m, r) \<in> set (regex_m s)"
  proof cases
    case 1
    with a show ?thesis unfolding mem_regex_m by (simp add: month_token_1 [OF assms])
  next
    case 2
    with a show ?thesis unfolding mem_regex_m by (simp add: month_token_2 [OF assms])
  qed
qed

lemma set_regex_matches:
  assumes "decimal_table_ok dec"
  shows "((d, m, y), r) \<in> set (regex_matches dec s) \<longleftrightarrow>
     s = d @ 46 # m @ 46 # y @ r \<and> day_token dec d \<and> month_token dec m \<and> year_token dec y"
proof
  assume "((d, m, y), r) \<in> set (regex_matches dec s)"
  then show "s = d @ 46 # m @ 46 # y @ r \<and> day_token dec d \<and> month_token dec m \<and> year_token dec y"
    unfolding regex_matches_def
    by (auto simp: set_regex_d [OF assms] set_regex_m [OF assms] mem_regex_Y set_regex_dot)
next
  assume a: "s = d @ 46 # m @ 46 # y @ r \<and> day_token dec d \<and> month_token dec m \<and> year_token dec y"
  then have 1: "(d, 46 # m @ 46 # y @ r) \<in> set (regex_d dec s)"
    by (simp add: set_regex_d [OF assms])
  from a have 2: "(m, 46 # y @ r) \<in> set (regex_m (m @ 46 # y @ r))"
    by (simp add: set_regex_m [OF assms])
  from a have 3: "(y, r) \<in> set (regex_Y dec (y @ r))"
    by (simp add: mem_regex_Y)
  show "((d, m, y), r) \<in> set (regex_matches dec s)"
    unfolding regex_matches_def
    by (auto simp: set_regex_dot intro!: bexI [OF _ 1] bexI [OF _ 2] image_eqI [OF _ 3])
qed

lemma day_token_no_dot:
  assumes "decimal_table_ok dec" and "day_token dec d"
  shows "46 \<notin> set d"
  using day_token_length [OF assms(2)] assms(2) not_digit(1) [OF assms(1)]
  by (auto simp: day_token_1 [OF assms(1)] day_token_2 [OF assms(1)])

lemma month_token_no_dot:
  assumes "decimal_table_ok dec" and "month_token dec m"
  shows "46 \<notin> set m"
  using month_token_length [OF assms(2)] assms(2)
  by (auto simp: month_token_1 [OF assms(1)] month_token_2 [OF assms(1)])

lemma split_at_unique:
  "c \<notin> set a \<Longrightarrow> c \<notin> set a' \<Longrightarrow> a @ c # b = a' @ c # b' \<Longrightarrow> a = a' \<and> b = b'"
proof (induction a arbitrary: a')
  case Nil
  then show ?case by (cases a') auto
next
  case (Cons x a)
  then show ?case by (cases a') auto
qed

lemma regex_matches_unique:
  assumes ok: "decimal_table_ok dec"
    and "x \<in> set (regex_matches dec s)" and "x' \<in> set (regex_matches dec s)"
  shows "x = x'"
proof -
  obtain d m y r where x: "x = ((d, m, y), r)" by (cases x) auto
  obtain d' m' y' r' where x': "x' = ((d', m', y'), r')" by (cases x') auto
  from assms(2) x have 1: "s = d @ 46 # m @ 46 # y @ r"
    "day_token dec d" "month_token dec m" "year_token dec y"
    by (simp_all add: set_regex_matches [OF ok])
  from assms(3) x' have 2: "s = d' @ 46 # m' @ 46 # y' @ r'"
    "day_token dec d'" "month_token dec m'" "year_token dec y'"
    by (simp_all add: set_regex_matches [OF ok])
  have d: "d = d' \<and> m @ 46 # y @ r = m' @ 46 # y' @ r'"
    using 1 2 split_at_unique [OF day_token_no_dot [OF ok] day_token_no_dot [OF ok]] by metis
  then have m: "m = m' \<and> y @ r = y' @ r'"
    using 1 2 split_at_unique [OF month_token_no_dot [OF ok] month_token_no_dot [OF ok]] by metis
  then have "y = y' \<and> r = r'"
    using 1(4) 2(4) by (simp add: year_token_def)
  with d m x x' show ?thesis by simp
qed

lemma format_regex_match_iff:
  assumes "decimal_table_ok dec"
  shows "format_regex_match dec s = Some x \<longleftrightarrow> x \<in> set (regex_matches dec s)"
proof (cases "regex_matches dec s")
  case Nil
  then show ?thesis
    by (simp add: format_regex_match_def)
next
  case (Cons h t)
  then have "h \<in> set (regex_matches dec s)" by simp
  then have "x \<in> set (regex_matches dec s) \<longleftrightarrow> x = h"
    using regex_matches_unique [OF assms] by blast
  with Cons show ?thesis
    by (auto simp: format_regex_match_def)
qed

lemma strptime_dmy_iff:
  assumes ok: "decimal_table_ok dec"
  shows "strptime_dmy dec s = Inr dt \<longleftrightarrow>
     (\<exists>d m y. s = d @ [46] @ m @ [46] @ y
        \<and> day_token dec d \<and> month_token dec m \<and> year_token dec y
        \<and> datetime_date (py_int dec y) (py_int dec m) (py_int dec d) = Inr dt)"
proof
  assume a: "strptime_dmy dec s = Inr dt"
  then obtain d m y where f: "format_regex_match dec s = Some ((d, m, y), [])"
    and dt: "datetime_date (py_int dec y) (py_int dec m) (py_int dec d) = Inr dt"
    by (auto simp: strptime_dmy_def split: option.splits if_splits)
  from f have "((d, m, y), []) \<in> set (regex_matches dec s)"
    by (simp add: format_regex_match_iff [OF ok])
  with dt show "\<exists>d m y. s = d @ [46] @ m @ [46] @ y
      \<and> day_token dec d \<and> month_token dec m \<and> year_token dec y
      \<and> datetime_date (py_int dec y) (py_int dec m) (py_int dec d) = Inr dt"
    by (auto simp: set_regex_matches [OF ok])
next
  assume "\<exists>d m y. s = d @ [46] @ m @ [46] @ y
      \<and> day_token dec d \<and> month_token dec m \<and> year_token dec y
      \<and> datetime_date (py_int dec y) (py_int dec m) (py_int dec d) = Inr dt"
  then obtain d m y where s: "s = d @ [46] @ m @ [46] @ y"
    and t: "day_token dec d" "month_token dec m" "year_token dec y"
    and dt: "datetime_date (py_int dec y) (py_int dec m) (py_int dec d) = Inr dt"
    by blast
  from s t have "((d, m, y), []) \<in> set (regex_matches dec s)"
    by (simp add: set_regex_matches [OF ok])
  then have "format_regex_match dec s = Some ((d, m, y), [])"
    by (simp add: format_regex_match_iff [OF ok])
  with dt show "strptime_dmy dec s = Inr dt"
    by (simp add: strptime_dmy_def)
qed

lemma strptime_dmy_error: "strptime_dmy dec s = Inl e \<Longrightarrow> e = ValueError"
  by (auto simp: strptime_dmy_def datetime_date_def split: option.splits if_splits)

lemma year_token_value:
  assumes "decimal_table_ok dec" and "year_token dec y"
  shows "py_int dec y \<le> 9999"
proof -
  from assms(2) obtain a b c d where y: "y = [a, b, c, d]" and "uni_digit dec a"
    by (auto simp: year_token_def length4)
  then have "a \<noteq> 32"
    using not_digit(2) [OF assms(1)] by auto
  with y show ?thesis
    using digit_le9 [OF assms(1), of a] digit_le9 [OF assms(1), of b]
      digit_le9 [OF assms(1), of c] digit_le9 [OF assms(1), of d]
    by (simp add: py_int_def lit_def cp_vals)
qed

lemma example_decimal_ok: "decimal_table_ok example_decimal"
  by (auto simp: decimal_table_ok_def example_decimal_def cp_vals split: if_splits)

lemma py_int4:
  assumes "decimal_table_ok dec" and "list_all ascii_digit [a, b, c, d]"
  shows "py_int dec [a, b, c, d] = 1000 * (a - 48) + 100 * (b - 48) + 10 * (c - 48) + (d - 48)"
proof -
  from assms(2) have "a \<noteq> 32" by (simp add: ascii_digit_iff)
  with assms show ?thesis
    by (simp add: py_int_def lit_def cp_vals digit_value_ascii)
qed

lemma year_token_ascii:
  "decimal_table_ok dec \<Longrightarrow> list_all ascii_digit [a, b, c, d] \<Longrightarrow> year_token dec [a, b, c, d]"
  by (simp add: year_token_def ascii_digit_uni)

lemma ustr_simps:
  "ustr ''05.03.2021'' = [48, 53] @ ustr ''.'' @ [48, 51] @ ustr ''.'' @ [50, 48, 50, 49]"
  "ustr ''5.3.2021'' = [53] @ ustr ''.'' @ [51] @ ustr ''.'' @ [50, 48, 50, 49]"
  "ustr ''2021-03-05'' = [50, 48, 50, 49, 45, 48, 51, 45, 48, 53]"
  "ustr ''.'' = [46]"
  by (simp_all add: ustr_def cp_def)

lemma unify_exact_example:
  assumes ok: "decimal_table_ok dec"
  shows "unify_date_format dec (ustr ''05.03.2021'') = Inr (Datetime 2021 3 5)"
proof -
  have "day_token dec [48, 53]" "month_token dec [48, 51]" "year_token dec [50, 48, 50, 49]"
    by (simp_all add: day_token_2 [OF ok] month_token_2 [OF ok] year_token_ascii [OF ok]
        ascii_digit_iff)
  moreover have "datetime_date (py_int dec [50, 48, 50, 49]) (py_int dec [48, 51])
      (py_int dec [48, 53]) = Inr (Datetime 2021 3 5)"
    by (simp add: py_int4 [OF ok] py_int2 digit_value_ascii [OF ok] ascii_digit_iff
        datetime_date_def days_in_month_def)
  ultimately show ?thesis
    unfolding unify_date_format_def strptime_dmy_iff [OF ok] ustr_simps(1) ustr_simps(4)
    by blast
qed

lemma unify_one_digit_example:
  assumes ok: "decimal_table_ok dec"
  shows "unify_date_format dec (ustr ''5.3.2021'') = Inr (Datetime 2021 3 5)"
proof -
  have "day_token dec [53]" "month_token dec [51]" "year_token dec [50, 48, 50, 49]"
    by (simp_all add: day_token_1 [OF ok] month_token_1 [OF ok] year_token_ascii [OF ok]
        ascii_digit_iff)
  moreover have "datetime_date (py_int dec [50, 48, 50, 49]) (py_int dec [51])
      (py_int dec [53]) = Inr (Datetime 2021 3 5)"
    by (simp add: py_int4 [OF ok] py_int1 digit_value_ascii [OF ok] ascii_digit_iff
        datetime_date_def days_in_month_def)
  ultimately show ?thesis
    unfolding unify_date_format_def strptime_dmy_iff [OF ok] ustr_simps(2) ustr_simps(4)
    by blast
qed

lemma unify_no_dot:
  assumes ok: "decimal_table_ok dec" and "46 \<notin> set s"
  shows "unify_date_format dec s = Inl ValueError"
proof (cases "unify_date_format dec s")
  case (Inl e)
  then show ?thesis
    using strptime_dmy_error [of dec s e] by (simp add: unify_date_format_def)
next
  case (Inr dt)
  then obtain d m y where "s = d @ [46] @ m @ [46] @ y"
    unfolding unify_date_format_def strptime_dmy_iff [OF ok] by blast
  with assms(2) show ?thesis by simp
qed

lemma unify_iso_example:
  "decimal_table_ok dec \<Longrightarrow> unify_date_format dec (ustr ''2021-03-05'') = Inl ValueError"
  by (rule unify_no_dot) (simp_all add: ustr_simps(3))

text \<open>
  C4 (as stated): every input that is not two digits, a dot, two digits, a dot and four
  digits fails. \<open>strptime\<close> takes the leading zero of \<open>%d\<close> and \<open>%m\<close> as optional:
  the one-digit day and month of \<open>"5.3.2021"\<close> parse.
\<close>

theorem one_digit_day_parses:
  "decimal_table_ok example_decimal
   \<and> unify_date_format example_decimal (ustr ''5.3.2021'') = Inr (Datetime 2021 3 5)"
  using example_decimal_ok unify_one_digit_example [OF example_decimal_ok] by simp

text \<open>
  C4 (amended): \<open>unify_date_format\<close> maps \<open>"05.03.2021"\<close> to 2021-03-05 and fails with a
  \<open>ValueError\<close> on \<open>"2021-03-05"\<close>. It returns a date exactly on the inputs
  day, dot, month, dot, year in which
  \<^item> the day is an ASCII digit, or two characters of which the first is an ASCII digit and
    the second an ASCII digit or, after \<open>1\<close> or \<open>2\<close>, any Unicode decimal digit, or a space
    and an ASCII digit, and reads as a number from 1 to 31;
  \<^item> the month is one or two ASCII digits and reads as a number from 1 to 12;
  \<^item> the year is exactly four Unicode decimal digits;
  \<^item> the three numbers are a date of the calendar from year 1 on;
  and the date returned is then that date. On every other input it fails with a
  \<open>ValueError\<close>: there is no fallback date. This holds for every string of code points and
  every table of the decimal digits that has the ASCII digits with their values and
  neither the dot nor the space.
\<close>

theorem unify_date_format_accepts:
  assumes "decimal_table_ok dec"
  shows "unify_date_format dec (ustr ''05.03.2021'') = Inr (Datetime 2021 3 5)
   \<and> unify_date_format dec (ustr ''2021-03-05'') = Inl ValueError
   \<and> (\<forall>s dt. unify_date_format dec s = Inr dt \<longleftrightarrow>
         (\<exists>d m y. s = d @ ustr ''.'' @ m @ ustr ''.'' @ y
            \<and> day_token dec d \<and> month_token dec m \<and> year_token dec y
            \<and> 1 \<le> py_int dec y
            \<and> py_int dec d \<le> days_in_month (py_int dec y) (py_int dec m)
            \<and> dt = Datetime (py_int dec y) (py_int dec m) (py_int dec d)))
   \<and> (\<forall>s. unify_date_format dec s = Inl ValueError \<or> (\<exists>dt. unify_date_format dec s = Inr dt))"
proof (intro conjI allI)
  show "unify_date_format dec (ustr ''05.03.2021'') = Inr (Datetime 2021 3 5)"
    by (rule unify_exact_example [OF assms])
  show "unify_date_format dec (ustr ''2021-03-05'') = Inl ValueError"
    by (rule unify_iso_example [OF assms])
next
  fix s dt
  show "unify_date_format dec s = Inr dt \<longleftrightarrow>
         (\<exists>d m y. s = d @ ustr ''.'' @ m @ ustr ''.'' @ y
            \<and> day_token dec d \<and> month_token dec m \<and> year_token dec y
            \<and> 1 \<le> py_int dec y
            \<and> py_int dec d \<le> days_in_month (py_int dec y) (py_int dec m)
            \<and> dt = Datetime (py_int dec y) (py_int dec m) (py_int dec d))"
    unfolding unify_date_format_def strptime_dmy_iff [OF assms] ustr_simps(4)
    using year_token_value [OF assms]
    by (auto simp: datetime_date_def day_token_def month_token_def)
next
  fix s
  show "unify_date_format dec s = Inl ValueError \<or> (\<exists>dt. unify_date_format dec s = Inr dt)"
    using strptime_dmy_error [of dec s]
    by (cases "unify_date_format dec s") (auto simp: unify_date_format_def)
qed

lemma example_decimal_values:
  "example_decimal 0xFF10 = Some 0" "example_decimal 0xFF11 = Some 1"
  "example_decimal 0xFF12 = Some 2" "example_decimal 0x665 = Some 5"
  "example_decimal 0x661 = Some 1"
  by (simp_all add: example_decimal_def)

lemma example_fullwidth_year:
  "unify_date_format example_decimal (ustr ''05.03.'' @ [0xFF12, 0xFF10, 0xFF12, 0xFF11])
     = Inr (Datetime 2021 3 5)"
proof -
  note ok = example_decimal_ok
  have s: "ustr ''05.03.'' @ [0xFF12, 0xFF10, 0xFF12, 0xFF11] =
      [48, 53] @ [46] @ [48, 51] @ [46] @ [0xFF12, 0xFF10, 0xFF12, 0xFF11]"
    by (simp add: ustr_def cp_def)
  have "day_token example_decimal [48, 53]" "month_token example_decimal [48, 51]"
    "year_token example_decimal [0xFF12, 0xFF10, 0xFF12, 0xFF11]"
    by (simp_all add: day_token_2 [OF ok] month_token_2 [OF ok] year_token_def uni_digit_def
        example_decimal_values)
  moreover have "datetime_date (py_int example_decimal [0xFF12, 0xFF10, 0xFF12, 0xFF11])
      (py_int example_decimal [48, 51]) (py_int example_decimal [48, 53])
      = Inr (Datetime 2021 3 5)"
    by (simp add: py_int_def lit_def cp_vals digit_value_def example_decimal_values
        digit_value_ascii [OF ok] ascii_digit_iff ascii_digit_value [OF ok]
        datetime_date_def days_in_month_def)
  ultimately show ?thesis
    unfolding unify_date_format_def strptime_dmy_iff [OF ok] s by blast
qed

lemma example_mixed_day:
  "unify_date_format example_decimal ([0x31, 0x665] @ ustr ''.03.2021'')
     = Inr (Datetime 2021 3 15)"
proof -
  note ok = example_decimal_ok
  have s: "[0x31, 0x665] @ ustr ''.03.2021'' =
      [0x31, 0x665] @ [46] @ [48, 51] @ [46] @ [50, 48, 50, 49]"
    by (simp add: ustr_def cp_def)
  have "day_token example_decimal [0x31, 0x665]" "month_token example_decimal [48, 51]"
    "year_token example_decimal [50, 48, 50, 49]"
    by (simp_all add: day_token_2 [OF ok] month_token_2 [OF ok] year_token_ascii [OF ok]
        ascii_digit_iff uni_digit_def example_decimal_values)
  moreover have "datetime_date (py_int example_decimal [50, 48, 50, 49])
      (py_int example_decimal [48, 51]) (py_int example_decimal [0x31, 0x665])
      = Inr (Datetime 2021 3 15)"
    by (simp add: py_int4 [OF ok] py_int2 digit_value_def example_decimal_values
        ascii_digit_value [OF ok] ascii_digit_iff datetime_date_def days_in_month_def)
  ultimately show ?thesis
    unfolding unify_date_format_def strptime_dmy_iff [OF ok] s by blast
qed

lemma example_no_day:
  "\<not> (\<exists>d m y. [0x661, 0x665] @ ustr ''.03.2021'' = d @ ustr ''.'' @ m @ ustr ''.'' @ y
          \<and> day_token example_decimal d)"
proof
  note ok = example_decimal_ok
  assume "\<exists>d m y. [0x661, 0x665] @ ustr ''.03.2021'' = d @ ustr ''.'' @ m @ ustr ''.'' @ y
          \<and> day_token example_decimal d"
  then obtain d m y where s: "[0x661, 0x665] @ ustr ''.03.2021'' = d @ ustr ''.'' @ m @ ustr ''.'' @ y"
    and d: "day_token example_decimal d"
    by blast
  have l: "[0x661, 0x665] @ ustr ''.03.2021'' = [0x661, 0x665] @ 46 # ustr ''03.2021''"
    by (simp add: ustr_def cp_def)
  from s have "[0x661, 0x665] @ 46 # ustr ''03.2021'' = d @ 46 # (m @ ustr ''.'' @ y)"
    unfolding l by (simp add: ustr_simps(4))
  moreover have "46 \<notin> set [0x661, 0x665 :: nat]" by simp
  ultimately have "d = [0x661, 0x665]"
    using split_at_unique [of 46 "[0x661, 0x665]" d] day_token_no_dot [OF ok d] by blast
  with d show False
    by (simp add: day_token_2 [OF ok])
qed

lemma example_two_arabic_indic:
  "unify_date_format example_decimal ([0x661, 0x665] @ ustr ''.03.2021'') = Inl ValueError"
proof (cases "unify_date_format example_decimal ([0x661, 0x665] @ ustr ''.03.2021'')")
  case (Inl e)
  then show ?thesis
    using strptime_dmy_error [of example_decimal _ e] by (simp add: unify_date_format_def)
next
  case (Inr dt)
  then have "\<exists>d m y. [0x661, 0x665] @ ustr ''.03.2021'' = d @ ustr ''.'' @ m @ ustr ''.'' @ y
          \<and> day_token example_decimal d"
    unfolding unify_date_format_def strptime_dmy_iff [OF example_decimal_ok] ustr_simps(4)
    by blast
  with example_no_day show ?thesis by blast
qed

theorem unify_date_format_accepts_witness:
  "decimal_table_ok example_decimal
   \<and> unify_date_format example_decimal (ustr ''05.03.2021'') = Inr (Datetime 2021 3 5)
   \<and> unify_date_format example_decimal (ustr ''05.03.'' @ [0xFF12, 0xFF10, 0xFF12, 0xFF11])
       = Inr (Datetime 2021 3 5)
   \<and> unify_date_format example_decimal ([0x31, 0x665] @ ustr ''.03.2021'')
       = Inr (Datetime 2021 3 15)
   \<and> unify_date_format example_decimal ([0x661, 0x665] @ ustr ''.03.2021'') = Inl ValueError"
  using unify_date_format_accepts [OF example_decimal_ok] example_decimal_ok
    example_fullwidth_year example_mixed_day example_two_arabic_indic
  by blast

section \<open>URL extraction: theorems\<close>

lemma py_split_not_Nil [simp]: "py_split sep s \<noteq> []"
  by (induction s) (auto split: list.splits)

lemma py_split_length [simp]: "Suc 0 \<le> length (py_split sep s)"
  by (cases "py_split sep s") auto

lemma py_split_Cons_other:
  "c \<noteq> sep \<Longrightarrow> py_split sep (c # cs) = (c # hd (py_split sep cs)) # tl (py_split sep cs)"
  by (cases "py_split sep cs") auto

lemma py_split_takeWhile:
  "py_split sep s = takeWhile (\<lambda>c. c \<noteq> sep) s # tl (py_split sep s)"
  by (induction s) (auto split: list.splits)

lemma py_split_prefix:
  "sep \<notin> set a \<Longrightarrow> py_split sep (a @ sep # b) = a # py_split sep b"
  by (induction a) (auto simp: py_split_Cons_other)

lemma py_split_https:
  "py_split (CHR ''/'') (''https://'' @ r) =
     ''https:'' # [] # takeWhile (\<lambda>c. c \<noteq> CHR ''/'') r # tl (py_split (CHR ''/'') r)"
proof -
  have "py_split (CHR ''/'') (''https:'' @ CHR ''/'' # (CHR ''/'' # r)) =
      ''https:'' # py_split (CHR ''/'') (CHR ''/'' # r)"
    by (rule py_split_prefix) simp
  then show ?thesis
    using py_split_takeWhile [of "CHR ''/''" r] by simp
qed

lemma py_split_http:
  "py_split (CHR ''/'') (''http://'' @ r) =
     ''http:'' # [] # takeWhile (\<lambda>c. c \<noteq> CHR ''/'') r # tl (py_split (CHR ''/'') r)"
proof -
  have "py_split (CHR ''/'') (''http:'' @ CHR ''/'' # (CHR ''/'' # r)) =
      ''http:'' # py_split (CHR ''/'') (CHR ''/'' # r)"
    by (rule py_split_prefix) simp
  then show ?thesis
    using py_split_takeWhile [of "CHR ''/''" r] by simp
qed

lemma startswith_decompose: "startswith s p \<Longrightarrow> s = p @ drop (length p) s"
  by (metis append_take_drop_id startswith_def)

lemma seed_parts:
  assumes "startswith_any s [''http://'', ''https://'']"
  shows "3 \<le> length (py_split (CHR ''/'') s)
       \<and> py_split (CHR ''/'') s ! 0 @ ''//'' @ py_split (CHR ''/'') s ! 2 = seed_prefix s"
proof (cases "startswith s ''https://''")
  case True
  define r where "r = drop (length ''https://'') s"
  from True have s: "s = ''https://'' @ r"
    unfolding r_def by (rule startswith_decompose)
  have "py_split (CHR ''/'') s = ''https:'' # [] #
      takeWhile (\<lambda>c. c \<noteq> CHR ''/'') r # tl (py_split (CHR ''/'') r)"
    unfolding s by (rule py_split_https)
  then have "3 \<le> length (py_split (CHR ''/'') s)"
    and "py_split (CHR ''/'') s ! 0 @ ''//'' @ py_split (CHR ''/'') s ! 2 =
      ''https://'' @ takeWhile (\<lambda>c. c \<noteq> CHR ''/'') r"
    by simp_all
  with True show ?thesis
    by (simp add: seed_prefix_def scheme_of_def after_scheme_def r_def)
next
  case False
  with assms have h: "startswith s ''http://''"
    by (simp add: startswith_any_def)
  define r where "r = drop (length ''http://'') s"
  from h have s: "s = ''http://'' @ r"
    unfolding r_def by (rule startswith_decompose)
  have "py_split (CHR ''/'') s = ''http:'' # [] #
      takeWhile (\<lambda>c. c \<noteq> CHR ''/'') r # tl (py_split (CHR ''/'') r)"
    unfolding s by (rule py_split_http)
  then have "3 \<le> length (py_split (CHR ''/'') s)"
    and "py_split (CHR ''/'') s ! 0 @ ''//'' @ py_split (CHR ''/'') s ! 2 =
      ''http://'' @ takeWhile (\<lambda>c. c \<noteq> CHR ''/'') r"
    by simp_all
  with False h show ?thesis
    by (simp add: seed_prefix_def scheme_of_def after_scheme_def r_def)
qed

lemma validated_seeds:
  assumes "validate_config_content c = Inr ()" and "seed \<in> set (get_seed_urls c)"
  shows "startswith_any seed [''http://'', ''https://'']"
proof -
  from assms(1) obtain us where us: "seed_urls c = PList us" and ok: "list_all seed_url_ok us"
    by (auto simp: validate_config_content_def list_ex_not_iff split: pyval.splits if_splits)
  from assms(2) us have "PStr seed \<in> set us"
    by (auto simp: get_seed_urls_def map_filter_def split: pyval.splits)
  with ok show ?thesis
    by (auto simp: list_all_iff seed_url_ok_def)
qed

lemma extract_url_relative:
  assumes "tag_attrs a ''href'' = Some (AStr href)" and "href \<noteq> []"
    and "\<not> startswith_any href [''http://'', ''https://'']"
    and "get_seed_urls c = seed # rest"
    and "startswith_any seed [''http://'', ''https://'']"
  shows "extract_url c a = Inr (seed_prefix seed @ href)"
  using assms seed_parts [OF assms(5)]
  by (simp add: extract_url_def Let_def)

lemma takeWhile_narrow:
  assumes "list_all P (takeWhile Q r)"
    and "\<And>c. Q c \<Longrightarrow> P c \<Longrightarrow> R c" and "\<And>c. R c \<Longrightarrow> Q c"
  shows "takeWhile R r = takeWhile Q r"
  using assms(1)
proof (induction r)
  case Nil
  then show ?case by simp
next
  case (Cons c r)
  then show ?case
    using assms(2) [of c] assms(3) [of c] by (cases "Q c") auto
qed

lemma host_of_plain:
  assumes "list_all (\<lambda>c. c \<notin> set ''?#@:['') t"
  shows "host_of t = t"
proof -
  from assms have no: "CHR ''@'' \<notin> set t" "CHR '':'' \<notin> set t" "CHR ''['' \<notin> set t"
    by (auto simp: list_all_iff)
  then have "t \<noteq> [] \<Longrightarrow> hd t \<noteq> CHR ''[''"
    by (cases t) auto
  moreover have "takeWhile (\<lambda>c. c \<noteq> CHR '':'') t = t"
    using no(2) by (auto simp: takeWhile_eq_all_conv)
  ultimately show ?thesis
    using no(1) by (auto simp: host_of_def)
qed

lemma plain_host_prefix:
  assumes "plain_host u"
  shows "seed_prefix u = scheme_and_host u"
proof -
  let ?t = "takeWhile (\<lambda>c. c \<noteq> CHR ''/'') (after_scheme u)"
  from assms have p: "list_all (\<lambda>c. c \<notin> set ''?#@:['') ?t"
    by (simp add: plain_host_def)
  have "authority_of u = ?t"
    unfolding authority_of_def
    by (rule takeWhile_narrow [OF p]) auto
  with p show ?thesis
    by (simp add: seed_prefix_def scheme_and_host_def host_of_plain)
qed

lemma example_config_validates: "validate_config_content (example_config (PInt 5)) = Inr ()"
  by (simp add: validate_count_in_range)

lemma no_seed_config_validates: "validate_config_content no_seed_config = Inr ()"
  by (simp add: no_seed_config_def validate_config_content_def example_config_def)

lemma query_seed_config:
  "validate_config_content (seeds_config [''https://example.com?x=1''] 5) = Inr ()"
  "get_seed_urls (seeds_config [''https://example.com?x=1''] 5) = [''https://example.com?x=1'']"
  by (simp_all add: seeds_config_def validate_config_content_def example_config_def
      get_seed_urls_def seed_url_ok_def startswith_any_def startswith_def)

text \<open>
  C5 (as stated): every non-empty \<open>href\<close> without a scheme is returned behind the scheme
  and host of the first seed URL. The source cuts the seed at the next \<open>/\<close> and at nothing
  else: for the seed \<open>https://example.com?x=1\<close>, which passes validation, the query stays
  in the prefix, while the scheme and host are \<open>https://example.com\<close>.
\<close>

theorem query_stays_in_prefix:
  "validate_config_content (seeds_config [''https://example.com?x=1''] 5) = Inr ()
   \<and> extract_url (seeds_config [''https://example.com?x=1''] 5)
        (anchor (Some (AStr ''/news/123''))) = Inr ''https://example.com?x=1/news/123''
   \<and> scheme_and_host ''https://example.com?x=1'' = ''https://example.com''"
proof -
  have "extract_url (seeds_config [''https://example.com?x=1''] 5)
        (anchor (Some (AStr ''/news/123''))) = Inr ''https://example.com?x=1/news/123''"
    by (simp add: extract_url_def anchor_def query_seed_config startswith_any_def startswith_def)
  moreover have "scheme_and_host ''https://example.com?x=1'' = ''https://example.com''"
    by (simp add: scheme_and_host_def scheme_of_def authority_of_def after_scheme_def
        host_of_def startswith_def)
  ultimately show ?thesis
    using query_seed_config(1) by simp
qed

text \<open>
  C5 (amended): an \<open>href\<close> that starts with \<open>http://\<close> or \<open>https://\<close> is returned unchanged.
  Under a validated configuration any other non-empty \<open>href\<close> is returned behind the first
  seed URL cut before the first \<open>/\<close> that follows the \<open>//\<close> of its scheme, and gives the
  empty string when the seed list is empty. That prefix is the scheme and host of the seed
  whenever what stands between the \<open>//\<close> and the next \<open>/\<close> is a host and nothing else: no
  query or fragment directly behind it, no user information, no port.
\<close>

theorem extract_url_normalizes:
  assumes "tag_attrs a ''href'' = Some (AStr href)"
  shows "(startswith_any href [''http://'', ''https://''] \<longrightarrow> extract_url c a = Inr href)
       \<and> (validate_config_content c = Inr () \<and> href \<noteq> []
            \<and> \<not> startswith_any href [''http://'', ''https://''] \<longrightarrow>
          extract_url c a =
            Inr (case get_seed_urls c of [] \<Rightarrow> [] | seed # rest \<Rightarrow> seed_prefix seed @ href))
       \<and> (\<forall>seed. plain_host seed \<longrightarrow> seed_prefix seed = scheme_and_host seed)"
proof (intro conjI impI allI)
  assume "startswith_any href [''http://'', ''https://'']"
  moreover from this have "href \<noteq> []"
    by (auto simp: startswith_any_def startswith_def)
  ultimately show "extract_url c a = Inr href"
    using assms by (simp add: extract_url_def)
next
  assume a: "validate_config_content c = Inr () \<and> href \<noteq> []
    \<and> \<not> startswith_any href [''http://'', ''https://'']"
  show "extract_url c a =
      Inr (case get_seed_urls c of [] \<Rightarrow> [] | seed # rest \<Rightarrow> seed_prefix seed @ href)"
  proof (cases "get_seed_urls c")
    case Nil
    with a assms show ?thesis by (simp add: extract_url_def)
  next
    case (Cons seed rest)
    with a have "startswith_any seed [''http://'', ''https://'']"
      using validated_seeds [of c seed] by simp
    with a assms Cons show ?thesis
      by (simp add: extract_url_relative)
  qed
next
  fix seed
  assume "plain_host seed"
  then show "seed_prefix seed = scheme_and_host seed"
    by (rule plain_host_prefix)
qed

theorem extract_url_normalizes_witness:
  "extract_url (example_config (PInt 5)) (anchor (Some (AStr ''/news/123'')))
     = Inr ''https://example.com/news/123''
   \<and> plain_host ''https://example.com/page''
   \<and> scheme_and_host ''https://example.com/page'' = ''https://example.com''
   \<and> extract_url (example_config (PInt 5)) (anchor (Some (AStr ''http://other.org/a'')))
     = Inr ''http://other.org/a''
   \<and> extract_url no_seed_config (anchor (Some (AStr ''/news/123''))) = Inr []"
proof -
  have g: "get_seed_urls (example_config (PInt 5)) = [''https://example.com/page'']"
    by (simp add: get_seed_urls_def example_config_def)
  have n: "get_seed_urls no_seed_config = []"
    by (simp add: get_seed_urls_def no_seed_config_def)
  have p: "plain_host ''https://example.com/page''"
    by (simp add: plain_host_def after_scheme_def scheme_of_def startswith_def)
  have s: "scheme_and_host ''https://example.com/page'' = ''https://example.com''"
    by (simp add: scheme_and_host_def scheme_of_def authority_of_def after_scheme_def
        host_of_def startswith_def)
  have r: "\<not> startswith_any ''/news/123'' [''http://'', ''https://'']"
    by (simp add: startswith_any_def startswith_def)
  have b: "startswith_any ''http://other.org/a'' [''http://'', ''https://'']"
    by (simp add: startswith_any_def startswith_def)
  have 1: "extract_url (example_config (PInt 5)) (anchor (Some (AStr ''/news/123'')))
     = Inr (scheme_and_host ''https://example.com/page'' @ ''/news/123'')"
    using extract_url_normalizes [of "anchor (Some (AStr ''/news/123''))" "''/news/123''"
        "example_config (PInt 5)"] example_config_validates g r p
    by (simp add: anchor_def)
  have 2: "extract_url (example_config (PInt 5)) (anchor (Some (AStr ''http://other.org/a'')))
     = Inr ''http://other.org/a''"
    using extract_url_normalizes [of "anchor (Some (AStr ''http://other.org/a''))"
        "''http://other.org/a''" "example_config (PInt 5)"] b
    by (simp add: anchor_def)
  have 3: "extract_url no_seed_config (anchor (Some (AStr ''/news/123''))) = Inr []"
    using extract_url_normalizes [of "anchor (Some (AStr ''/news/123''))" "''/news/123''"
        no_seed_config] no_seed_config_validates n r
    by (simp add: anchor_def)
  from 1 2 3 p s show ?thesis by simp
qed



text \<open>At every other anchor the source does what C10 says: under a validated configuration
  the call returns, a non-empty list is treated as its first element, a missing or empty
  \<open>href\<close> gives the empty string, and every seed URL splits on \<open>/\<close> into at least three
  parts, so that \<open>parts[2]\<close> exists.\<close>

lemma extract_url_total_elsewhere:
  assumes "validate_config_content c = Inr ()"
  shows "(tag_attrs a ''href'' \<noteq> Some (AList []) \<longrightarrow> (\<exists>url. extract_url c a = Inr url))
       \<and> (\<forall>x xs a'. tag_attrs a ''href'' = Some (AList (x # xs))
              \<and> tag_attrs a' ''href'' = Some (AStr x) \<longrightarrow> extract_url c a = extract_url c a')
       \<and> (tag_attrs a ''href'' \<in> {None, Some (AStr [])} \<longrightarrow> extract_url c a = Inr [])
       \<and> (\<forall>seed \<in> set (get_seed_urls c). 3 \<le> length (py_split (CHR ''/'') seed))"
proof -
  have parts: "3 \<le> length (py_split (CHR ''/'') seed)" if "seed \<in> set (get_seed_urls c)" for seed
    using validated_seeds [OF assms that] seed_parts by blast
  have first: "\<not> length (py_split (CHR ''/'') seed) < 3" if "get_seed_urls c = seed # rest"
    for seed rest
    using parts [of seed] that by simp
  have 1: "tag_attrs a ''href'' \<noteq> Some (AList []) \<longrightarrow> (\<exists>url. extract_url c a = Inr url)"
    using first
    by (auto simp: extract_url_def Let_def split: option.splits attr_value.splits list.splits)
  have 2: "\<forall>x xs a'. tag_attrs a ''href'' = Some (AList (x # xs))
      \<and> tag_attrs a' ''href'' = Some (AStr x) \<longrightarrow> extract_url c a = extract_url c a'"
    by (simp add: extract_url_def)
  have 3: "tag_attrs a ''href'' \<in> {None, Some (AStr [])} \<longrightarrow> extract_url c a = Inr []"
    by (auto simp: extract_url_def)
  from 1 2 3 parts show ?thesis by blast
qed

section \<open>Link discovery: theorems\<close>

lemma set_first_occurrences [simp]: "set (first_occurrences xs) = set xs"
  by (simp add: first_occurrences_def)

lemma distinct_first_occurrences [simp]: "distinct (first_occurrences xs)"
  by (simp add: first_occurrences_def)

lemma first_occurrences_distinct: "distinct xs \<Longrightarrow> first_occurrences xs = xs"
  by (simp add: first_occurrences_def distinct_remdups_id)

lemma remdups_append_filter:
  "remdups (xs @ ys) = remdups (filter (\<lambda>x. x \<notin> set ys) xs) @ remdups ys"
  by (induction xs) auto

lemma first_occurrences_append:
  "first_occurrences (xs @ ys) =
     first_occurrences xs @ first_occurrences (filter (\<lambda>y. y \<notin> set xs) ys)"
  by (simp add: first_occurrences_def remdups_append_filter [of "rev ys" "rev xs"] rev_filter)

lemma first_occurrences_absorb:
  "first_occurrences (first_occurrences xs @ ys) = first_occurrences (xs @ ys)"
  by (simp add: first_occurrences_append first_occurrences_distinct)

lemma first_occurrences_seen:
  "u \<in> set us \<Longrightarrow> first_occurrences (us @ u # xs) = first_occurrences (us @ xs)"
  by (simp add: first_occurrences_append)

lemma take_first_occurrences_prefix:
  assumes "distinct ys" and "length ys = n"
  shows "take n (first_occurrences (ys @ xs)) = ys"
  using assms by (simp add: first_occurrences_append first_occurrences_distinct)

lemma page_links_links: "page_links c soup = links c (tag_find_all soup ''h3'' [])"
  by (simp add: page_links_def)

lemma links_Nil [simp]: "links c [] = []"
  by (simp add: links_def)

lemma links_Cons:
  "links c (h # hs) =
     (case tag_find h (Some ''a'') [(''href'', AttrPresent)] of
          FTag a_tag \<Rightarrow>
            (case extract_url c a_tag of Inr url \<Rightarrow> (if url \<noteq> [] then [url] else []) | Inl e \<Rightarrow> [])
        | _ \<Rightarrow> []) @ links c hs"
  by (simp add: links_def)

lemma cap_iff: "get_num_articles c \<le> int (length us) \<longleftrightarrow> nat (get_num_articles c) \<le> length us"
  by linarith

lemma headers_loop_cap:
  "get_num_articles c \<le> int (length us) \<Longrightarrow> headers_loop c hs us = (None, us)"
  by (cases hs) auto

lemma headers_loop_distinct:
  "headers_loop c hs us = (e, us') \<Longrightarrow> distinct us \<Longrightarrow> distinct us'"
  by (induction hs arbitrary: us)
    (auto split: if_splits found.splits sum.splits)

lemma headers_loop_length:
  "headers_loop c hs us = (e, us') \<Longrightarrow> length us \<le> nat (get_num_articles c) \<Longrightarrow>
     length us' \<le> nat (get_num_articles c)"
proof (induction hs arbitrary: us)
  case Nil
  then show ?case by simp
next
  case (Cons h hs)
  show ?case
  proof (cases "get_num_articles c \<le> int (length us)")
    case True
    with Cons.prems show ?thesis by simp
  next
    case False
    then have "length (us @ [u]) \<le> nat (get_num_articles c)" for u
      by simp
    with Cons False show ?thesis
      by (auto split: found.splits sum.splits if_splits)
  qed
qed

lemma headers_loop_order:
  assumes "headers_loop c hs us = (None, us')" and "distinct us"
  shows "us' = (if nat (get_num_articles c) \<le> length us then us
                else take (nat (get_num_articles c)) (first_occurrences (us @ links c hs)))"
  using assms
proof (induction hs arbitrary: us)
  case Nil
  then show ?case by (simp add: first_occurrences_distinct)
next
  case (Cons h hs)
  let ?n = "nat (get_num_articles c)"
  show ?case
  proof (cases "get_num_articles c \<le> int (length us)")
    case True
    with Cons.prems show ?thesis by (simp add: cap_iff)
  next
    case False
    then have lt: "length us < ?n" by linarith
    have tail: "headers_loop c hs us = (None, us') \<Longrightarrow>
        us' = take ?n (first_occurrences (us @ links c hs))"
      using Cons.IH [of us] Cons.prems(2) lt by simp
    show ?thesis
    proof (cases "tag_find h (Some ''a'') [(''href'', AttrPresent)]")
      case FNone
      with Cons.prems False lt tail show ?thesis
        by (simp add: links_Cons)
    next
      case (FString s)
      with Cons.prems False lt tail show ?thesis
        by (simp add: links_Cons split: if_splits)
    next
      case (FTag a_tag)
      show ?thesis
      proof (cases "extract_url c a_tag")
        case (Inl e)
        with Cons.prems False FTag show ?thesis by simp
      next
        case (Inr url)
        show ?thesis
        proof (cases "url \<noteq> [] \<and> url \<notin> set us")
          case True
          with Cons.prems False FTag Inr
          have run: "headers_loop c hs (us @ [url]) = (None, us')" by simp
          have d: "distinct (us @ [url])" using True Cons.prems(2) by simp
          have l: "links c (h # hs) = url # links c hs"
            using FTag Inr True by (simp add: links_Cons)
          show ?thesis
          proof (cases "?n \<le> length (us @ [url])")
            case True
            with lt have "length (us @ [url]) = ?n" by simp
            then have "take ?n (first_occurrences ((us @ [url]) @ links c hs)) = us @ [url]"
              using d by (rule take_first_occurrences_prefix [rotated])
            moreover have "us' = us @ [url]"
              using Cons.IH [OF run d] True by simp
            ultimately show ?thesis using lt l by simp
          next
            case False
            then have "us' = take ?n (first_occurrences ((us @ [url]) @ links c hs))"
              using Cons.IH [OF run d] by simp
            with lt l show ?thesis by simp
          qed
        next
          case skip: False
          with Cons.prems False FTag Inr
          have run: "headers_loop c hs us = (None, us')" by auto
          have "first_occurrences (us @ links c (h # hs)) = first_occurrences (us @ links c hs)"
          proof (cases "url = []")
            case True
            with FTag Inr show ?thesis by (simp add: links_Cons)
          next
            case False
            with skip have "url \<in> set us" by simp
            with FTag Inr False show ?thesis
              by (simp add: links_Cons first_occurrences_seen)
          qed
          with tail [OF run] lt show ?thesis by simp
        qed
      qed
    qed
  qed
qed

lemma find_articles_loop_invariant:
  assumes "find_articles_loop c w seeds s = (e, s')"
    and "distinct (urls s)" and "length (urls s) \<le> nat (get_num_articles c)"
  shows "distinct (urls s') \<and> length (urls s') \<le> nat (get_num_articles c)"
  using assms
proof (induction seeds arbitrary: s)
  case Nil
  then show ?case by simp
next
  case (Cons seed_url rest)
  let ?s1 = "s\<lparr>requested := requested s @ [seed_url]\<rparr>"
  show ?case
  proof (cases "http_get w (length (requested s)) seed_url")
    case (Inl err)
    with Cons.prems show ?thesis by (auto simp: make_request_def)
  next
    case (Inr response)
    show ?thesis
    proof (cases "ok response")
      case False
      with Cons.prems Inr have "find_articles_loop c w rest ?s1 = (e, s')"
        by (simp add: make_request_def)
      from Cons.IH [OF this] Cons.prems show ?thesis by simp
    next
      case True
      obtain e1 us where h: "headers_loop c
          (tag_find_all (beautiful_soup w (text_of response)) ''h3'' []) (urls s) = (e1, us)"
        by (cases "headers_loop c
          (tag_find_all (beautiful_soup w (text_of response)) ''h3'' []) (urls s)") auto
      have inv: "distinct us" "length us \<le> nat (get_num_articles c)"
        using headers_loop_distinct [OF h] headers_loop_length [OF h] Cons.prems by simp_all
      show ?thesis
      proof (cases e1)
        case None
        with Cons.prems Inr True h
        have "find_articles_loop c w rest (?s1\<lparr>urls := us\<rparr>) = (e, s')"
          by (simp add: make_request_def)
        from Cons.IH [OF this] inv show ?thesis by simp
      next
        case (Some err)
        with Cons.prems Inr True h have "s' = ?s1\<lparr>urls := us\<rparr>"
          by (simp add: make_request_def)
        with inv show ?thesis by simp
      qed
    qed
  qed
qed

lemma take_shorter: "length (take n xs) < n \<Longrightarrow> take n xs = xs"
  by (simp add: min_def split: if_splits)

lemma find_articles_loop_order:
  assumes "find_articles_loop c w seeds s = (None, s')" and "distinct (urls s)"
  shows "urls s' =
     (if nat (get_num_articles c) \<le> length (urls s) then urls s
      else take (nat (get_num_articles c))
             (first_occurrences (urls s @ discovered c w (length (requested s)) seeds)))"
  using assms
proof (induction seeds arbitrary: s)
  case Nil
  then show ?case by (simp add: first_occurrences_distinct)
next
  case (Cons seed_url rest)
  let ?n = "nat (get_num_articles c)"
  let ?s1 = "s\<lparr>requested := requested s @ [seed_url]\<rparr>"
  let ?k = "length (requested s)"
  show ?case
  proof (cases "http_get w ?k seed_url")
    case (Inl err)
    with Cons.prems show ?thesis by (simp add: make_request_def)
  next
    case (Inr response)
    show ?thesis
    proof (cases "ok response")
      case False
      with Cons.prems Inr have "find_articles_loop c w rest ?s1 = (None, s')"
        by (simp add: make_request_def)
      from Cons.IH [OF this] Cons.prems(2) Inr False show ?thesis by simp
    next
      case True
      let ?hs = "tag_find_all (beautiful_soup w (text_of response)) ''h3'' []"
      obtain e1 us where h: "headers_loop c ?hs (urls s) = (e1, us)"
        by (cases "headers_loop c ?hs (urls s)") auto
      with Cons.prems Inr True have e1: "e1 = None"
        by (cases e1) (simp_all add: make_request_def)
      with Cons.prems Inr True h
      have run: "find_articles_loop c w rest (?s1\<lparr>urls := us\<rparr>) = (None, s')"
        by (simp add: make_request_def)
      have d: "distinct us"
        using headers_loop_distinct [OF h] Cons.prems(2) by simp
      have us: "us = (if ?n \<le> length (urls s) then urls s
          else take ?n (first_occurrences (urls s @ links c ?hs)))"
        using headers_loop_order [of c ?hs "urls s" us] h e1 Cons.prems(2) by simp
      have ih: "urls s' = (if ?n \<le> length us then us
          else take ?n (first_occurrences (us @ discovered c w (Suc ?k) rest)))"
        using Cons.IH [OF run] d by simp
      have disc: "discovered c w ?k (seed_url # rest) = links c ?hs @ discovered c w (Suc ?k) rest"
        using Inr True by (simp add: page_links_links)
      show ?thesis
      proof (cases "?n \<le> length (urls s)")
        case True
        with us ih show ?thesis by simp
      next
        case below: False
        let ?P = "first_occurrences (urls s @ links c ?hs)"
        from below us have us_take: "us = take ?n ?P" by simp
        have split_all: "first_occurrences (urls s @ discovered c w ?k (seed_url # rest)) =
            ?P @ first_occurrences
              (filter (\<lambda>y. y \<notin> set (urls s @ links c ?hs)) (discovered c w (Suc ?k) rest))"
          unfolding disc using first_occurrences_append [of "urls s @ links c ?hs"] by simp
        show ?thesis
        proof (cases "?n \<le> length us")
          case True
          with us_take have "?n \<le> length ?P" by simp
          then have "take ?n (first_occurrences (urls s @ discovered c w ?k (seed_url # rest)))
              = take ?n ?P"
            unfolding split_all by simp
          with True ih us_take below show ?thesis by simp
        next
          case False
          then have "us = ?P"
            using us_take take_shorter [of ?n ?P] by simp
          then have "first_occurrences (us @ discovered c w (Suc ?k) rest) =
              first_occurrences (urls s @ discovered c w ?k (seed_url # rest))"
            unfolding disc using first_occurrences_absorb [of "urls s @ links c ?hs"] by simp
          with False ih below show ?thesis by simp
        qed
      qed
    qed
  qed
qed

lemma validated_num_articles:
  "validate_config_content c = Inr () \<Longrightarrow> 1 \<le> get_num_articles c \<and> get_num_articles c \<le> 150"
  by (auto simp: validate_config_content_def get_num_articles_def split: pyval.splits if_splits)

text \<open>
  C6: for every validated configuration and every network, the URLs link discovery leaves
  in the crawler are at most \<open>maxArticles\<close> and hold no string twice, whether discovery
  returned or raised. When it returned, they are the URLs discovered, in the order of the
  seeds and of the headings, each at its first occurrence, cut at \<open>maxArticles\<close>.
\<close>

theorem find_articles_bounded_distinct_ordered:
  assumes "validate_config_content c = Inr ()"
  shows "int (length (urls (snd (find_articles c w init_crawler)))) \<le> get_num_articles c
       \<and> distinct (urls (snd (find_articles c w init_crawler)))
       \<and> (fst (find_articles c w init_crawler) = None \<longrightarrow>
            urls (snd (find_articles c w init_crawler)) =
              take (nat (get_num_articles c))
                (first_occurrences (discovered c w 0 (get_seed_urls c))))"
proof -
  obtain e s' where r: "find_articles_loop c w (get_seed_urls c) init_crawler = (e, s')"
    by (cases "find_articles_loop c w (get_seed_urls c) init_crawler") auto
  have n: "1 \<le> get_num_articles c"
    using validated_num_articles [OF assms] by simp
  have "distinct (urls s') \<and> length (urls s') \<le> nat (get_num_articles c)"
    using find_articles_loop_invariant [OF r] by (simp add: init_crawler_def)
  moreover have "urls s' = take (nat (get_num_articles c))
      (first_occurrences (discovered c w 0 (get_seed_urls c)))" if "e = None"
    using find_articles_loop_order [of c w "get_seed_urls c" init_crawler s'] r that
    by (simp add: init_crawler_def)
  ultimately show ?thesis
    using r n by (auto simp: find_articles_def get_search_urls_def)
qed

lemma seeds_config_validates:
  "list_all (\<lambda>s. startswith_any s [''http://'', ''https://'']) seeds \<Longrightarrow> 1 \<le> n \<Longrightarrow> n \<le> 150 \<Longrightarrow>
     validate_config_content (seeds_config seeds n) = Inr ()"
  by (simp add: validate_config_content_def seeds_config_def example_config_def list_ex_iff
      list_all_iff seed_url_ok_def)

lemma seeds_config_get [simp]:
  "get_seed_urls (seeds_config seeds n) = seeds" "get_num_articles (seeds_config seeds n) = n"
  by (simp_all add: get_seed_urls_def get_num_articles_def seeds_config_def example_config_def
      map_filter_def comp_def)

lemma example_extract:
  "extract_url (seeds_config (''https://example.com/page'' # rest) n) (anchor (Some (AStr ''/news/1'')))
     = Inr ''https://example.com/news/1''"
  "extract_url (seeds_config (''https://example.com/page'' # rest) n) (anchor (Some (AStr ''/news/2'')))
     = Inr ''https://example.com/news/2''"
  by (simp_all add: extract_url_def anchor_def startswith_any_def startswith_def)

lemma example_headers_1:
  "headers_loop (seeds_config (''https://example.com/page'' # rest) 1)
     (tag_find_all (beautiful_soup example_world t) ''h3'' []) [] =
     (None, [''https://example.com/news/1''])"
  by (simp add: example_world_def listing_def heading_def example_extract)

lemma example_headers_1_full:
  "headers_loop (seeds_config (''https://example.com/page'' # rest) 1)
     (tag_find_all (beautiful_soup example_world t) ''h3'' []) [''https://example.com/news/1''] =
     (None, [''https://example.com/news/1''])"
  by (simp add: headers_loop_cap)

lemma example_headers_5:
  "headers_loop (seeds_config (''https://example.com/page'' # rest) 5)
     (tag_find_all (beautiful_soup example_world t) ''h3'' []) [] =
     (None, [''https://example.com/news/1'', ''https://example.com/news/2''])"
  by (simp add: example_world_def listing_def heading_def example_extract)

lemma example_get:
  "http_get example_world k ''https://example.com/page'' = Inr (Response True ''https://example.com/page'')"
  "http_get example_world k ''https://example.com/page2'' = Inr (Response True ''https://example.com/page2'')"
  "http_get example_world k ''https://example.com/down'' = Inl RequestException"
  by (simp_all add: example_world_def)

lemma example_run_capped:
  "find_articles (seeds_config [''https://example.com/page'', ''https://example.com/page2''] 1)
     example_world init_crawler =
   (None, \<lparr>urls = [''https://example.com/news/1''],
           requested = [''https://example.com/page'', ''https://example.com/page2'']\<rparr>)"
  by (simp add: find_articles_def get_search_urls_def init_crawler_def make_request_def
      example_get example_headers_1 example_headers_1_full)

lemma example_run_first_seed:
  "find_articles_loop (seeds_config [''https://example.com/page'', ''https://example.com/page2''] 1)
     example_world [''https://example.com/page''] init_crawler =
   (None, \<lparr>urls = [''https://example.com/news/1''], requested = [''https://example.com/page'']\<rparr>)"
  by (simp add: init_crawler_def make_request_def example_get example_headers_1)

lemma example_run_down:
  "find_articles (seeds_config [''https://example.com/down'', ''https://example.com/page''] 5)
     example_world init_crawler =
   (Some RequestException, \<lparr>urls = [], requested = [''https://example.com/down'']\<rparr>)"
  by (simp add: find_articles_def get_search_urls_def init_crawler_def make_request_def
      example_get)

lemma example_run_open:
  "find_articles (seeds_config [''https://example.com/page'', ''https://example.com/page2''] 5)
     example_world init_crawler =
   (None, \<lparr>urls = [''https://example.com/news/1'', ''https://example.com/news/2''],
           requested = [''https://example.com/page'', ''https://example.com/page2'']\<rparr>)"
proof -
  have again: "headers_loop (seeds_config [''https://example.com/page'', ''https://example.com/page2''] 5)
     (tag_find_all (beautiful_soup example_world t) ''h3'' [])
     [''https://example.com/news/1'', ''https://example.com/news/2''] =
     (None, [''https://example.com/news/1'', ''https://example.com/news/2''])" for t
    by (simp add: example_world_def listing_def heading_def example_extract)
  show ?thesis
    by (simp add: find_articles_def get_search_urls_def init_crawler_def make_request_def
      example_get example_headers_5 again)
qed

theorem find_articles_bounded_distinct_ordered_witness:
  "validate_config_content
     (seeds_config [''https://example.com/page'', ''https://example.com/page2''] 1) = Inr ()
   \<and> urls (snd (find_articles
        (seeds_config [''https://example.com/page'', ''https://example.com/page2''] 1)
        example_world init_crawler)) = [''https://example.com/news/1'']
   \<and> take 1 (first_occurrences (discovered
        (seeds_config [''https://example.com/page'', ''https://example.com/page2''] 1)
        example_world 0 [''https://example.com/page'', ''https://example.com/page2'']))
      = [''https://example.com/news/1'']"
proof -
  have v: "validate_config_content
     (seeds_config [''https://example.com/page'', ''https://example.com/page2''] 1) = Inr ()"
    by (simp add: seeds_config_validates startswith_any_def startswith_def)
  show ?thesis
    using v find_articles_bounded_distinct_ordered [OF v, of example_world]
    by (simp add: example_run_capped)
qed

text \<open>
  C1 (as stated): once the cap is reached, no later seed is fetched. With a cap of one
  article and two seeds, the first listing page fills the cap, and the second seed is
  requested all the same.
\<close>

theorem later_seed_fetched_after_cap:
  "find_articles_loop
     (seeds_config [''https://example.com/page'', ''https://example.com/page2''] 1)
     example_world [''https://example.com/page''] init_crawler =
   (None, \<lparr>urls = [''https://example.com/news/1''], requested = [''https://example.com/page'']\<rparr>)
   \<and> find_articles
     (seeds_config [''https://example.com/page'', ''https://example.com/page2''] 1)
     example_world init_crawler =
   (None, \<lparr>urls = [''https://example.com/news/1''],
           requested = [''https://example.com/page'', ''https://example.com/page2'']\<rparr>)"
  using example_run_first_seed example_run_capped by simp

lemma find_articles_loop_capped_urls:
  "get_num_articles c \<le> int (length (urls s)) \<Longrightarrow>
     urls (snd (find_articles_loop c w seeds s)) = urls s"
proof (induction seeds arbitrary: s)
  case Nil
  then show ?case by simp
next
  case (Cons seed_url rest)
  let ?s1 = "s\<lparr>requested := requested s @ [seed_url]\<rparr>"
  have "urls (snd (find_articles_loop c w rest ?s1)) = urls s"
    using Cons.IH [of ?s1] Cons.prems by simp
  moreover have "?s1\<lparr>urls := urls s\<rparr> = ?s1" by simp
  ultimately show ?case
    using Cons.prems
    by (auto simp: make_request_def headers_loop_cap split: sum.splits)
qed

lemma find_articles_loop_capped_requests:
  "get_num_articles c \<le> int (length (urls s)) \<Longrightarrow>
   \<forall>i < length seeds. \<exists>r. http_get w (length (requested s) + i) (seeds ! i) = Inr r \<Longrightarrow>
     find_articles_loop c w seeds s = (None, s\<lparr>requested := requested s @ seeds\<rparr>)"
proof (induction seeds arbitrary: s)
  case Nil
  then show ?case by simp
next
  case (Cons seed_url rest)
  let ?s1 = "s\<lparr>requested := requested s @ [seed_url]\<rparr>"
  from Cons.prems(2) obtain r where r: "http_get w (length (requested s)) seed_url = Inr r"
    by fastforce
  have "\<forall>i < length rest. \<exists>r. http_get w (length (requested ?s1) + i) (rest ! i) = Inr r"
    using Cons.prems(2) by fastforce
  then have ih: "find_articles_loop c w rest ?s1 = (None, ?s1\<lparr>requested := requested ?s1 @ rest\<rparr>)"
    using Cons.IH [of ?s1] Cons.prems(1) by simp
  have "?s1\<lparr>urls := urls s\<rparr> = ?s1" by simp
  with r ih Cons.prems(1) show ?case
    by (simp add: make_request_def headers_loop_cap)
qed

text \<open>
  C1 (amended): once the accumulated URLs have reached \<open>maxArticles\<close>, no URL is added any
  more. The seeds that remain are still requested, one after the other; their headings
  are not processed. When none of these requests raises, discovery returns after the last
  seed with every one of them requested.
\<close>

theorem find_articles_after_cap:
  assumes "get_num_articles c \<le> int (length (urls s))"
  shows "urls (snd (find_articles_loop c w seeds s)) = urls s
       \<and> ((\<forall>i < length seeds. \<exists>r. http_get w (length (requested s) + i) (seeds ! i) = Inr r) \<longrightarrow>
            find_articles_loop c w seeds s = (None, s\<lparr>requested := requested s @ seeds\<rparr>))"
  using assms find_articles_loop_capped_urls find_articles_loop_capped_requests by blast

theorem find_articles_after_cap_witness:
  "get_num_articles (seeds_config [''https://example.com/page'', ''https://example.com/page2''] 1)
     \<le> int (length [''https://example.com/news/1''])
   \<and> find_articles_loop
       (seeds_config [''https://example.com/page'', ''https://example.com/page2''] 1)
       example_world [''https://example.com/page2'']
       \<lparr>urls = [''https://example.com/news/1''], requested = [''https://example.com/page'']\<rparr> =
     (None, \<lparr>urls = [''https://example.com/news/1''],
             requested = [''https://example.com/page'', ''https://example.com/page2'']\<rparr>)"
  using find_articles_after_cap
    [of "seeds_config [''https://example.com/page'', ''https://example.com/page2''] 1"
        "\<lparr>urls = [''https://example.com/news/1''], requested = [''https://example.com/page'']\<rparr>"
        example_world "[''https://example.com/page2'']"]
  by (simp add: example_get)

text \<open>
  C2 (as stated): a transport failure on one seed skips that seed and discovery goes on.
  With the first of two seeds unreachable, \<open>find_articles\<close> raises the failure and the
  second seed is never requested.
\<close>

theorem transport_failure_stops_discovery:
  "find_articles (seeds_config [''https://example.com/down'', ''https://example.com/page''] 5)
     example_world init_crawler =
   (Some RequestException, \<lparr>urls = [], requested = [''https://example.com/down'']\<rparr>)"
  by (rule example_run_down)

lemma find_articles_loop_append:
  "find_articles_loop c w pre s = (None, s1) \<Longrightarrow>
     find_articles_loop c w (pre @ rest) s = find_articles_loop c w rest s1"
  by (induction pre arbitrary: s)
    (auto simp: make_request_def split: sum.splits prod.splits option.splits if_splits)

text \<open>
  C2 (amended): when the request for a seed raises a transport failure, \<open>find_articles\<close>
  raises it: discovery ends at that seed, no later seed is requested, and the crawler
  holds the URLs accumulated up to then. A response that is not \<open>ok\<close> skips that one seed
  and discovery goes on with the seeds that remain.
\<close>

theorem find_articles_transport_failure:
  assumes "find_articles_loop c w pre s = (None, s1)"
  shows "(http_get w (length (requested s1)) seed_url = Inl e \<longrightarrow>
            find_articles_loop c w (pre @ seed_url # post) s =
              (Some e, s1\<lparr>requested := requested s1 @ [seed_url]\<rparr>))
       \<and> (\<forall>r. http_get w (length (requested s1)) seed_url = Inr r \<and> \<not> ok r \<longrightarrow>
            find_articles_loop c w (pre @ seed_url # post) s =
              find_articles_loop c w post (s1\<lparr>requested := requested s1 @ [seed_url]\<rparr>))"
  using find_articles_loop_append [OF assms, of "seed_url # post"]
  by (simp add: make_request_def)

theorem find_articles_transport_failure_witness:
  "find_articles_loop
     (seeds_config [''https://example.com/page'', ''https://example.com/down'',
        ''https://example.com/page2''] 5)
     example_world [''https://example.com/page''] init_crawler =
     (None, \<lparr>urls = [''https://example.com/news/1'', ''https://example.com/news/2''],
             requested = [''https://example.com/page'']\<rparr>)
   \<and> find_articles_loop
     (seeds_config [''https://example.com/page'', ''https://example.com/down'',
        ''https://example.com/page2''] 5)
     example_world [''https://example.com/page'', ''https://example.com/down'',
        ''https://example.com/page2''] init_crawler =
     (Some RequestException,
      \<lparr>urls = [''https://example.com/news/1'', ''https://example.com/news/2''],
       requested = [''https://example.com/page'', ''https://example.com/down'']\<rparr>)"
proof -
  have pre: "find_articles_loop
     (seeds_config [''https://example.com/page'', ''https://example.com/down'',
        ''https://example.com/page2''] 5)
     example_world [''https://example.com/page''] init_crawler =
     (None, \<lparr>urls = [''https://example.com/news/1'', ''https://example.com/news/2''],
             requested = [''https://example.com/page'']\<rparr>)"
    by (simp add: init_crawler_def make_request_def example_get example_headers_5)
  show ?thesis
    using pre find_articles_transport_failure [OF pre, of "''https://example.com/down''"
        RequestException "[''https://example.com/page2'']"]
    by (simp add: example_get)
qed

section \<open>Body text and title: theorems\<close>

lemma py_join_Nil_iff: "py_join sep ps = [] \<longleftrightarrow> (\<forall>p \<in> set ps. p = []) \<and> (sep = [] \<or> length ps \<le> 1)"
  by (induction sep ps rule: py_join.induct) auto

lemma py_join_last:
  "ps \<noteq> [] \<Longrightarrow> last ps \<noteq> [] \<Longrightarrow> py_join sep ps \<noteq> [] \<and> last (py_join sep ps) = last (last ps)"
  by (induction sep ps rule: py_join.induct) auto

lemma py_join_newline: "py_join [CHR 0x0A] ps = newline_joined ps"
proof (induction ps rule: induct_list012)
  case 1
  then show ?case by (simp add: newline_joined_def)
next
  case (2 x)
  then show ?case by (simp add: newline_joined_def)
next
  case (3 x y zs)
  have "concat (map (\<lambda>p. p @ [CHR 0x0A]) (y # zs)) \<noteq> []" by simp
  then have "butlast (x @ [CHR 0x0A] @ concat (map (\<lambda>p. p @ [CHR 0x0A]) (y # zs))) =
      x @ [CHR 0x0A] @ butlast (concat (map (\<lambda>p. p @ [CHR 0x0A]) (y # zs)))"
    by (simp add: butlast_append)
  with 3 show ?case
    by (simp add: newline_joined_def)
qed

lemma kept_paragraphs_nonempty: "p \<in> set (kept_paragraphs v) \<Longrightarrow> p \<noteq> []"
  by (simp add: kept_paragraphs_def)

lemma kept_paragraphs_filter:
  "map tag_get_text_strip (filter (\<lambda>p. tag_get_text_strip p \<noteq> []) ps) =
     filter (\<lambda>t. t \<noteq> []) (map tag_get_text_strip ps)"
  by (induction ps) auto

text \<open>
  C7: when a link of the chain (the content region, the marked sub-region in it, the
  value region in that) is not a tag, the body text is the empty string;
  \<open>_fill_article_with_text\<close> has no raising path. When the three links resolve, the body
  text is the stripped texts of the paragraphs of the value region, those that are empty
  dropped, in their order, with one newline between two of them and none after the last:
  it is empty when none is kept, and it ends as the last kept paragraph ends. No other
  attribute of the article changes.
\<close>

theorem fill_article_with_text_chain:
  "(\<not> is_tag (tag_find soup (Some ''div'') [(''itemprop'', AttrEquals ''articleBody'')]) \<longrightarrow>
      fill_article_with_text soup a = a\<lparr>text_field := []\<rparr>)
   \<and> (\<forall>body. tag_find soup (Some ''div'') [(''itemprop'', AttrEquals ''articleBody'')] = FTag body
        \<and> \<not> is_tag (tag_find body (Some ''div'')
                [(''class'', AttrEquals ''field ft_html f_content auto_field'')]) \<longrightarrow>
      fill_article_with_text soup a = a\<lparr>text_field := []\<rparr>)
   \<and> (\<forall>body html_field.
        tag_find soup (Some ''div'') [(''itemprop'', AttrEquals ''articleBody'')] = FTag body
        \<and> tag_find body (Some ''div'')
             [(''class'', AttrEquals ''field ft_html f_content auto_field'')] = FTag html_field
        \<and> \<not> is_tag (tag_find html_field (Some ''div'') [(''class'', AttrEquals ''value'')]) \<longrightarrow>
      fill_article_with_text soup a = a\<lparr>text_field := []\<rparr>)
   \<and> (\<forall>body html_field value_div.
        tag_find soup (Some ''div'') [(''itemprop'', AttrEquals ''articleBody'')] = FTag body
        \<and> tag_find body (Some ''div'')
             [(''class'', AttrEquals ''field ft_html f_content auto_field'')] = FTag html_field
        \<and> tag_find html_field (Some ''div'') [(''class'', AttrEquals ''value'')] = FTag value_div \<longrightarrow>
      fill_article_with_text soup a =
        a\<lparr>text_field := newline_joined (kept_paragraphs value_div)\<rparr>
      \<and> (kept_paragraphs value_div = [] \<longrightarrow> text_field (fill_article_with_text soup a) = [])
      \<and> (kept_paragraphs value_div \<noteq> [] \<longrightarrow>
            text_field (fill_article_with_text soup a) \<noteq> []
            \<and> last (text_field (fill_article_with_text soup a))
                = last (last (kept_paragraphs value_div))))"
proof (intro conjI allI impI)
  fix body html_field value_div
  assume chain: "tag_find soup (Some ''div'') [(''itemprop'', AttrEquals ''articleBody'')] = FTag body
        \<and> tag_find body (Some ''div'')
             [(''class'', AttrEquals ''field ft_html f_content auto_field'')] = FTag html_field
        \<and> tag_find html_field (Some ''div'') [(''class'', AttrEquals ''value'')] = FTag value_div"
  then have run: "fill_article_with_text soup a =
      a\<lparr>text_field := py_join [CHR 0x0A] (kept_paragraphs value_div)\<rparr>"
    by (simp add: fill_article_with_text_def tag_bool_def kept_paragraphs_def
        kept_paragraphs_filter)
  then show eq: "fill_article_with_text soup a =
      a\<lparr>text_field := newline_joined (kept_paragraphs value_div)\<rparr>"
    by (simp add: py_join_newline)
  {
    assume "kept_paragraphs value_div = []"
    with eq show "text_field (fill_article_with_text soup a) = []"
      by (simp add: newline_joined_def)
  }
  assume ne: "kept_paragraphs value_div \<noteq> []"
  then have "last (kept_paragraphs value_div) \<noteq> []"
    using kept_paragraphs_nonempty [of "last (kept_paragraphs value_div)" value_div] by simp
  with ne have "py_join [CHR 0x0A] (kept_paragraphs value_div) \<noteq> []
      \<and> last (py_join [CHR 0x0A] (kept_paragraphs value_div)) = last (last (kept_paragraphs value_div))"
    by (rule py_join_last)
  with run show "text_field (fill_article_with_text soup a) \<noteq> []"
    and "last (text_field (fill_article_with_text soup a)) = last (last (kept_paragraphs value_div))"
    by simp_all
qed (auto simp: fill_article_with_text_def is_tag_def tag_bool_def split: found.splits)

lemma container_find [simp]:
  "tag_find (container name attrs child) (Some name) attrs = FTag child"
  by (simp add: container_def)

theorem fill_article_with_text_chain_witness:
  "fill_article_with_text example_article_page empty_article = empty_article\<lparr>text_field := ''A''\<rparr>
   \<and> fill_article_with_text example_article_page2 empty_article =
       empty_article\<lparr>text_field := ''A'' @ [CHR 0x0A] @ ''Bc''\<rparr>
   \<and> \<not> is_tag (tag_find (p_tag ''x'') (Some ''div'') [(''itemprop'', AttrEquals ''articleBody'')])
   \<and> fill_article_with_text (p_tag ''x'') empty_article = empty_article\<lparr>text_field := []\<rparr>"
proof -
  have k: "kept_paragraphs (value_region [p_tag ''A'', p_tag []]) = [''A'']"
    "kept_paragraphs (value_region [p_tag ''A'', p_tag [], p_tag ''Bc'']) = [''A'', ''Bc'']"
    by (simp_all add: kept_paragraphs_def value_region_def p_tag_def)
  have j: "newline_joined [''A''] = ''A''" "newline_joined [''A'', ''Bc''] = ''A'' @ [CHR 0x0A] @ ''Bc''"
    by (simp_all add: newline_joined_def)
  have n: "\<not> is_tag (tag_find (p_tag ''x'') (Some ''div'')
      [(''itemprop'', AttrEquals ''articleBody'')])"
    by (simp add: is_tag_def p_tag_def)
  have 1: "fill_article_with_text example_article_page empty_article =
      empty_article\<lparr>text_field := ''A''\<rparr>"
    using fill_article_with_text_chain [of example_article_page empty_article]
    by (simp add: example_article_page_def k j)
  have 2: "fill_article_with_text example_article_page2 empty_article =
      empty_article\<lparr>text_field := ''A'' @ [CHR 0x0A] @ ''Bc''\<rparr>"
    using fill_article_with_text_chain [of example_article_page2 empty_article]
    by (simp add: example_article_page2_def k j)
  have 3: "fill_article_with_text (p_tag ''x'') empty_article = empty_article\<lparr>text_field := []\<rparr>"
    using fill_article_with_text_chain [of "p_tag ''x''" empty_article] n by simp
  from 1 2 3 n show ?thesis by simp
qed












end
